theory Spec2Isabelle
  imports Complex_Main "HOL-Library.Multiset" "HOL-Library.Monad_Syntax"
begin

section \<open>Python values shared by all modules\<close>

text \<open>
  A Python \<open>str\<close> is a sequence of Unicode code points, so a character is its code
  point and a string a list of them. ASCII literals of the source are written through
  \<open>ascii\<close>; the Russian messages of the source are given by their code points.
\<close>

type_synonym pychar = nat
type_synonym pystr = "pychar list"

definition ascii :: "string \<Rightarrow> pystr" where
  "ascii s = map of_char s"

text \<open>
  A Python float: a number, by its value, or NaN. The comparisons \<open>x < y\<close> and
  \<open>x >= y\<close> are false when \<open>x\<close> or \<open>y\<close> is NaN.
\<close>

datatype pyfloat = Float real | NaN

fun float_lt :: "pyfloat \<Rightarrow> pyfloat \<Rightarrow> bool" where
  "float_lt (Float a) (Float b) = (a < b)"
| "float_lt _ _ = False"

fun float_ge :: "pyfloat \<Rightarrow> pyfloat \<Rightarrow> bool" where
  "float_ge (Float a) (Float b) = (a \<ge> b)"
| "float_ge _ _ = False"

text \<open>A \<open>datetime.date\<close>, by its proleptic Gregorian ordinal (\<open>date.toordinal()\<close>):
  dates compare as their ordinals do.\<close>

type_synonym date = int

text \<open>An exception caught by \<open>except Exception as e\<close>, by its \<open>str(e)\<close>.\<close>

datatype py_exception = PyException (str_of: pystr)

text \<open>\<open>fastapi.HTTPException(status_code, detail)\<close>.\<close>

datatype http_exception = HTTPException (status_code: nat) (detail: pystr)

text \<open>
  A pydantic \<open>ValidationError\<close>, by the names of the fields that failed, in the order
  of the model's fields.
\<close>

datatype validation_error = ValidationError (error_fields: "string list")

text \<open>
  A keyword argument handed to a pydantic model: not given, given with a value that
  the field's type rejects, or given with a value of the field's type.
\<close>

datatype 'a raw = Absent | Bad | Given 'a

section \<open>models.py\<close>

datatype PaymentMethod = CARD | CASH | BANK_TRANSFER

record GuestInfo =
  first_name :: pystr
  last_name :: pystr
  middle_name :: "pystr option"
  phone :: pystr
  email :: pystr

record PaymentInfo =
  card_number :: "pystr option"
  card_holder :: "pystr option"
  expiry_month :: "int option"
  expiry_year :: "int option"
  cvv :: "pystr option"
  payment_method :: PaymentMethod

record BookingRequest =
  city :: pystr
  check_in :: date
  check_out :: date
  guests_count :: int
  min_price :: "int option"
  max_price :: "int option"
  apartment_type :: "pystr option"
  amenities :: "pystr list option"
  district :: "pystr option"
  guest_info :: GuestInfo
  payment_info :: PaymentInfo

text \<open>The keyword arguments of \<open>BookingRequest(...)\<close>, before validation.\<close>

record BookingRequest_kwargs =
  kw_city :: "pystr raw"
  kw_check_in :: "date raw"
  kw_check_out :: "date raw"
  kw_guests_count :: "int raw"
  kw_min_price :: "int option raw"
  kw_max_price :: "int option raw"
  kw_apartment_type :: "pystr option raw"
  kw_amenities :: "pystr list option raw"
  kw_district :: "pystr option raw"
  kw_guest_info :: "GuestInfo raw"
  kw_payment_info :: "PaymentInfo raw"

text \<open>
  A field \<open>Field(...)\<close> is required; a field \<open>Field(d, ...)\<close> takes the default \<open>d\<close>
  when it is not given (pydantic does not validate defaults). The result is \<open>None\<close>
  when the field has an error.
\<close>

fun required :: "'a raw \<Rightarrow> 'a option" where
  "required (Given v) = Some v"
| "required Absent = None"
| "required Bad = None"

fun with_default :: "'a \<Rightarrow> 'a raw \<Rightarrow> 'a option" where
  "with_default d (Given v) = Some v"
| "with_default d Absent = Some d"
| "with_default d Bad = None"

text \<open>The constraints \<open>ge\<close> and \<open>le\<close> of \<open>Field\<close>; on an \<open>Optional\<close> field they
  apply to a value that is not \<open>None\<close>.\<close>

definition constrain :: "('a \<Rightarrow> bool) \<Rightarrow> 'a option \<Rightarrow> 'a option" where
  "constrain ok f = (case f of None \<Rightarrow> None | Some v \<Rightarrow> if ok v then Some v else None)"

definition opt_ge :: "int \<Rightarrow> int option \<Rightarrow> bool" where
  "opt_ge b v = (case v of None \<Rightarrow> True | Some n \<Rightarrow> b \<le> n)"

text \<open>
  \<^verbatim>\<open>@validator('check_out')
def check_out_after_check_in(cls, v, values):
    if 'check_in' in values and v <= values['check_in']:
        raise ValueError(...)
    return v\<close>
  \<open>values\<close> holds the fields validated before this one; \<open>check_in\<close> is in it exactly
  when it passed its own validation. Raising is the result \<open>None\<close>.
\<close>

definition check_out_after_check_in :: "date \<Rightarrow> date option \<Rightarrow> date option" where
  "check_out_after_check_in v values_check_in =
     (case values_check_in of
        Some ci \<Rightarrow> if v \<le> ci then None else Some v
      | None \<Rightarrow> Some v)"

text \<open>
  \<^verbatim>\<open>@validator('max_price')
def max_price_greater_than_min(cls, v, values):
    if v is not None and 'min_price' in values and values['min_price'] is not None:
        if v <= values['min_price']:
            raise ValueError(...)
    return v\<close>
\<close>

definition max_price_greater_than_min :: "int option \<Rightarrow> int option option \<Rightarrow> int option option" where
  "max_price_greater_than_min v values_min_price =
     (case (v, values_min_price) of
        (Some mx, Some (Some mn)) \<Rightarrow> if mx \<le> mn then None else Some v
      | _ \<Rightarrow> Some v)"

text \<open>A validator runs on a field that passed its type and constraints.\<close>

definition validated :: "('a \<Rightarrow> 'a option) \<Rightarrow> 'a option \<Rightarrow> 'a option" where
  "validated f x = (case x of None \<Rightarrow> None | Some v \<Rightarrow> f v)"

definition field_error :: "string \<Rightarrow> 'a option \<Rightarrow> string list" where
  "field_error name x = (case x of None \<Rightarrow> [name] | Some _ \<Rightarrow> [])"

text \<open>
  \<open>BookingRequest(**kwargs)\<close>: every field is validated in the order of the class
  body, the errors of all fields are collected, and the object exists only when
  there is none.
\<close>

definition BookingRequest_init :: "BookingRequest_kwargs \<Rightarrow> validation_error + BookingRequest" where
  "BookingRequest_init kw =
     (let f_city = required (kw_city kw);
          f_check_in = required (kw_check_in kw);
          f_check_out = validated (\<lambda>v. check_out_after_check_in v f_check_in)
                          (required (kw_check_out kw));
          f_guests_count = (case kw_guests_count kw of
                              Absent \<Rightarrow> Some 1
                            | g \<Rightarrow> constrain (\<lambda>n. 1 \<le> n \<and> n \<le> 10) (required g));
          f_min_price = constrain (opt_ge 0) (with_default None (kw_min_price kw));
          f_max_price = validated (\<lambda>v. max_price_greater_than_min v f_min_price)
                          (constrain (opt_ge 0) (with_default None (kw_max_price kw)));
          f_apartment_type = with_default None (kw_apartment_type kw);
          f_amenities = with_default None (kw_amenities kw);
          f_district = with_default None (kw_district kw);
          f_guest_info = required (kw_guest_info kw);
          f_payment_info = required (kw_payment_info kw);
          errors = field_error ''city'' f_city @ field_error ''check_in'' f_check_in
                 @ field_error ''check_out'' f_check_out
                 @ field_error ''guests_count'' f_guests_count
                 @ field_error ''min_price'' f_min_price
                 @ field_error ''max_price'' f_max_price
                 @ field_error ''apartment_type'' f_apartment_type
                 @ field_error ''amenities'' f_amenities
                 @ field_error ''district'' f_district
                 @ field_error ''guest_info'' f_guest_info
                 @ field_error ''payment_info'' f_payment_info
      in case do {
              v_city \<leftarrow> f_city;
              v_check_in \<leftarrow> f_check_in;
              v_check_out \<leftarrow> f_check_out;
              v_guests_count \<leftarrow> f_guests_count;
              v_min_price \<leftarrow> f_min_price;
              v_max_price \<leftarrow> f_max_price;
              v_apartment_type \<leftarrow> f_apartment_type;
              v_amenities \<leftarrow> f_amenities;
              v_district \<leftarrow> f_district;
              v_guest_info \<leftarrow> f_guest_info;
              v_payment_info \<leftarrow> f_payment_info;
              Some \<lparr>city = v_city, check_in = v_check_in, check_out = v_check_out,
                     guests_count = v_guests_count, min_price = v_min_price,
                     max_price = v_max_price, apartment_type = v_apartment_type,
                     amenities = v_amenities, district = v_district,
                     guest_info = v_guest_info, payment_info = v_payment_info\<rparr>
            } of
           None \<Rightarrow> Inl (ValidationError errors)
         | Some obj \<Rightarrow> Inr obj)"

record HotelAmenity =
  amenity_name :: pystr
  available :: bool

record HotelInfo =
  hotel_id :: pystr
  title :: pystr
  description :: "pystr option"
  price_per_night :: int
  total_price :: int
  rating :: "pyfloat option"
  reviews_count :: "int option"
  address :: pystr
  hotel_district :: "pystr option"
  rooms_count :: "int option"
  guests_capacity :: int
  hotel_amenities :: "HotelAmenity list"
  free_cancellation :: bool
  cancellation_policy :: "pystr option"
  photos :: "pystr list"
  url :: pystr

record HotelRecommendations =
  hotels :: "HotelInfo list"
  total_found :: int
  search_params :: BookingRequest

record BookingConfirmation =
  hotel :: HotelInfo
  booking_request :: BookingRequest
  confirmed :: bool

record BookingResult =
  success :: bool
  booking_id :: "pystr option"
  confirmation_number :: "pystr option"
  total_amount :: int
  message :: pystr
  booking_url :: "pystr option"

record SearchStatus =
  status :: pystr
  status_message :: pystr
  progress :: "int option"

text \<open>\<open>status: Literal["searching", "completed", "error"]\<close>\<close>

definition SearchStatus_literals :: "pystr list" where
  "SearchStatus_literals = [ascii ''searching'', ascii ''completed'', ascii ''error'']"

text \<open>
  \<open>SearchStatus(status=..., message=..., progress=...)\<close>: the status has to be one of
  the literals, and a progress that is not \<open>None\<close> has to lie in 0..100
  (\<open>ge=0, le=100\<close>).
\<close>

definition SearchStatus_init :: "pystr \<Rightarrow> pystr \<Rightarrow> int option \<Rightarrow> validation_error + SearchStatus" where
  "SearchStatus_init st msg prog =
     (let errors = (if st \<in> set SearchStatus_literals then [] else [''status''])
                 @ (case prog of None \<Rightarrow> []
                    | Some p \<Rightarrow> if 0 \<le> p \<and> p \<le> 100 then [] else [''progress''])
      in if errors = [] then Inr \<lparr>status = st, status_message = msg, progress = prog\<rparr>
         else Inl (ValidationError errors))"

section \<open>sutochno_service.py\<close>

text \<open>
  The task of a browser agent is an f-string of the source; it is determined by the
  values interpolated into it, which is how the model holds it.
\<close>

datatype agent_task = SearchTask BookingRequest | BookingTask HotelInfo BookingRequest

text \<open>
  \<open>self.agent\<close> is \<open>None\<close> until \<open>init_agent_with_task\<close> creates the agent; the
  agent is held by its task. \<open>agent_run\<close> is the outside world: what \<open>await
  self.agent.run()\<close> gives for a task, a value of the agent's own type or an
  exception.
\<close>

record 'r SutochnoService =
  agent :: "agent_task option"
  agent_run :: "agent_task \<Rightarrow> py_exception + 'r"

definition MSG_PARSE_BOOKING_NOT_IMPLEMENTED :: pystr where
  "MSG_PARSE_BOOKING_NOT_IMPLEMENTED =
     [1055, 1072, 1088, 1089, 1080, 1085, 1075, 32, 1088, 1077, 1079, 1091, 1083, 1100,
      1090, 1072, 1090, 1072, 32, 1073, 1088, 1086, 1085, 1080, 1088, 1086, 1074, 1072,
      1085, 1080, 1103, 32, 1087, 1086, 1082, 1072, 32, 1085, 1077, 32, 1088, 1077, 1072,
      1083, 1080, 1079, 1086, 1074, 1072, 1085]"

definition MSG_BOOKING_ERROR_PREFIX :: pystr where
  "MSG_BOOKING_ERROR_PREFIX =
     [1054, 1096, 1080, 1073, 1082, 1072, 32, 1087, 1088, 1080, 32, 1073, 1088, 1086,
      1085, 1080, 1088, 1086, 1074, 1072, 1085, 1080, 1080, 58, 32]"

text \<open>\<open>self.agent.task = ...\<close> while \<open>self.agent\<close> is \<open>None\<close>: an
  \<open>AttributeError\<close>; 39 is the apostrophe.\<close>

definition AttributeError_task :: py_exception where
  "AttributeError_task =
     PyException ([39] @ ascii ''NoneType'' @ [39] @ ascii '' object has no attribute ''
                  @ [39] @ ascii ''task'' @ [39])"

text \<open>
  \<open>_parse_search_results\<close>: the body of the \<open>try\<close> only logs a warning, and the
  function returns the list it created empty.
\<close>

definition parse_search_results :: "'r \<Rightarrow> BookingRequest \<Rightarrow> HotelInfo list" where
  "parse_search_results agent_result booking_req = []"

text \<open>
  \<open>_parse_booking_result\<close>: the body of the \<open>try\<close> logs a warning and returns the
  result below; nothing in it raises, so the \<open>except\<close> branch is never taken.
\<close>

definition parse_booking_result :: "'r \<Rightarrow> HotelInfo \<Rightarrow> BookingRequest \<Rightarrow> BookingResult" where
  "parse_booking_result agent_result hotel_info booking_req =
     \<lparr>success = False, booking_id = None, confirmation_number = None,
      total_amount = total_price hotel_info,
      message = MSG_PARSE_BOOKING_NOT_IMPLEMENTED, booking_url = None\<rparr>"

definition init_agent_with_task :: "'r SutochnoService \<Rightarrow> agent_task \<Rightarrow> 'r SutochnoService" where
  "init_agent_with_task svc t = svc\<lparr>agent := Some t\<rparr>"

text \<open>\<open>search_hotels\<close>: an exception of the agent is logged and raised again.\<close>

definition search_hotels ::
  "'r SutochnoService \<Rightarrow> BookingRequest \<Rightarrow> (py_exception + HotelRecommendations) \<times> 'r SutochnoService" where
  "search_hotels svc booking_req =
     (let search_task = SearchTask booking_req;
          svc1 = init_agent_with_task svc search_task
      in case agent_run svc1 search_task of
           Inl e \<Rightarrow> (Inl e, svc1)
         | Inr result \<Rightarrow>
             (let found = parse_search_results result booking_req
              in (Inr \<lparr>hotels = found, total_found = int (length found),
                       search_params = booking_req\<rparr>, svc1)))"

text \<open>\<open>book_hotel\<close>: every exception inside the \<open>try\<close> becomes a failed result.\<close>

definition book_hotel ::
  "'r SutochnoService \<Rightarrow> HotelInfo \<Rightarrow> BookingRequest \<Rightarrow> BookingResult \<times> 'r SutochnoService" where
  "book_hotel svc hotel_info booking_req =
     (let booking_task = BookingTask hotel_info booking_req;
          failed = (\<lambda>e. \<lparr>success = False, booking_id = None, confirmation_number = None,
                          total_amount = total_price hotel_info,
                          message = MSG_BOOKING_ERROR_PREFIX @ str_of e,
                          booking_url = None\<rparr>)
      in case agent svc of
           None \<Rightarrow> (failed AttributeError_task, svc)
         | Some _ \<Rightarrow>
             (let svc1 = svc\<lparr>agent := Some booking_task\<rparr>
              in case agent_run svc1 booking_task of
                   Inl e \<Rightarrow> (failed e, svc1)
                 | Inr result \<Rightarrow> (parse_booking_result result hotel_info booking_req, svc1)))"

section \<open>api.py\<close>

text \<open>An entry of the dictionary \<open>search_tasks\<close>; its keys are fixed by \<open>start_search\<close>.\<close>

record search_task =
  task_status :: pystr
  task_progress :: int
  task_message :: pystr
  task_booking_request :: BookingRequest
  task_result :: "HotelRecommendations option"
  task_error :: "pystr option"
  task_created_at :: nat

type_synonym search_tasks = "pystr \<rightharpoonup> search_task"
type_synonym booking_confirmations = "pystr \<rightharpoonup> BookingConfirmation"

text \<open>What a route handler raises: an \<open>HTTPException\<close> of its own, or the
  \<open>ValidationError\<close> of a model it builds.\<close>

datatype api_error = Http http_exception | Invalid validation_error

definition MSG_TASK_NOT_FOUND :: pystr where
  "MSG_TASK_NOT_FOUND =
     [1047, 1072, 1076, 1072, 1095, 1072, 32, 1087, 1086, 1080, 1089, 1082, 1072, 32,
      1085, 1077, 32, 1085, 1072, 1081, 1076, 1077, 1085, 1072]"

definition MSG_CHECK_IN_TOMORROW :: pystr where
  "MSG_CHECK_IN_TOMORROW =
     [1044, 1072, 1090, 1072, 32, 1079, 1072, 1077, 1079, 1076, 1072, 32, 1076, 1086,
      1083, 1078, 1085, 1072, 32, 1073, 1099, 1090, 1100, 32, 1085, 1077, 32, 1088, 1072,
      1085, 1100, 1096, 1077, 32, 1079, 1072, 1074, 1090, 1088, 1072, 1096, 1085, 1077,
      1075, 1086, 32, 1076, 1085, 1103]"

definition MSG_CHECK_OUT_LATER :: pystr where
  "MSG_CHECK_OUT_LATER =
     [1044, 1072, 1090, 1072, 32, 1074, 1099, 1077, 1079, 1076, 1072, 32, 1076, 1086,
      1083, 1078, 1085, 1072, 32, 1073, 1099, 1090, 1100, 32, 1087, 1086, 1079, 1078,
      1077, 32, 1076, 1072, 1090, 1099, 32, 1079, 1072, 1077, 1079, 1076, 1072]"

definition MSG_SEARCH_STARTED :: pystr where
  "MSG_SEARCH_STARTED =
     [1055, 1086, 1080, 1089, 1082, 32, 1079, 1072, 1087, 1091, 1097, 1077, 1085]"

definition MSG_SEARCH_BEGIN :: pystr where
  "MSG_SEARCH_BEGIN =
     [1053, 1072, 1095, 1080, 1085, 1072, 1077, 1084, 32, 1087, 1086, 1080, 1089, 1082,
      32, 1086, 1090, 1077, 1083, 1077, 1081, 46, 46, 46]"

definition MSG_CANCELLED_BY_USER :: pystr where
  "MSG_CANCELLED_BY_USER =
     [1055, 1086, 1080, 1089, 1082, 32, 1086, 1090, 1084, 1077, 1085, 1077, 1085, 32,
      1087, 1086, 1083, 1100, 1079, 1086, 1074, 1072, 1090, 1077, 1083, 1077, 1084]"

definition MSG_CANCELLED :: pystr where
  "MSG_CANCELLED =
     [1055, 1086, 1080, 1089, 1082, 32, 1086, 1090, 1084, 1077, 1085, 1077, 1085]"

definition MSG_CONFIRMATION_NOT_FOUND :: pystr where
  "MSG_CONFIRMATION_NOT_FOUND =
     [1055, 1086, 1076, 1090, 1074, 1077, 1088, 1078, 1076, 1077, 1085, 1080, 1077, 32,
      1073, 1088, 1086, 1085, 1080, 1088, 1086, 1074, 1072, 1085, 1080, 1103, 32, 1085,
      1077, 32, 1085, 1072, 1081, 1076, 1077, 1085, 1086]"

text \<open>
  \<open>start_search\<close>. \<open>today\<close> is \<open>date.today()\<close>, \<open>new_id\<close> is \<open>str(uuid.uuid4())\<close> and
  \<open>now\<close> is \<open>datetime.now()\<close>. A request that passes both checks is stored under the
  new id, and the search is handed to the background tasks: the result holds the
  response, the new dictionary and the scheduled call of \<open>perform_search\<close>.
\<close>

definition start_search ::
  "date \<Rightarrow> pystr \<Rightarrow> nat \<Rightarrow> BookingRequest \<Rightarrow> search_tasks
     \<Rightarrow> http_exception + ((pystr \<times> pystr) \<times> search_tasks \<times> (pystr \<times> BookingRequest))" where
  "start_search today new_id now booking_req tasks =
     (if check_in booking_req \<le> today
        then Inl (HTTPException 400 MSG_CHECK_IN_TOMORROW)
      else if check_out booking_req \<le> check_in booking_req
        then Inl (HTTPException 400 MSG_CHECK_OUT_LATER)
      else Inr ((new_id, MSG_SEARCH_STARTED),
                tasks(new_id \<mapsto>
                  \<lparr>task_status = ascii ''searching'', task_progress = 0,
                   task_message = MSG_SEARCH_BEGIN, task_booking_request = booking_req,
                   task_result = None, task_error = None, task_created_at = now\<rparr>),
                (new_id, booking_req)))"

text \<open>\<open>get_search_status\<close>: the response is a \<open>SearchStatus\<close> built from the stored
  entry.\<close>

definition get_search_status :: "pystr \<Rightarrow> search_tasks \<Rightarrow> api_error + SearchStatus" where
  "get_search_status task_id tasks =
     (case tasks task_id of
        None \<Rightarrow> Inl (Http (HTTPException 404 MSG_TASK_NOT_FOUND))
      | Some task_data \<Rightarrow>
          (case SearchStatus_init (task_status task_data) (task_message task_data)
                  (Some (task_progress task_data)) of
             Inl e \<Rightarrow> Inl (Invalid e)
           | Inr st \<Rightarrow> Inr st))"

text \<open>\<open>cancel_search\<close>: the entry stays in the dictionary with a new status and
  message.\<close>

definition cancel_search :: "pystr \<Rightarrow> search_tasks \<Rightarrow> (http_exception + pystr) \<times> search_tasks" where
  "cancel_search task_id tasks =
     (case tasks task_id of
        None \<Rightarrow> (Inl (HTTPException 404 MSG_TASK_NOT_FOUND), tasks)
      | Some task_data \<Rightarrow>
          (Inr MSG_CANCELLED,
           tasks(task_id \<mapsto> task_data\<lparr>task_status := ascii ''cancelled'',
                                       task_message := MSG_CANCELLED_BY_USER\<rparr>)))"

text \<open>
  \<open>execute_booking\<close>. The service is injected by FastAPI; \<open>book\<close> is its
  \<open>book_hotel\<close>, which returns a result or raises. The confirmation stored under the
  id is the object the handler marks, so the dictionary changes with it.
\<close>

definition execute_booking_with ::
  "(HotelInfo \<Rightarrow> BookingRequest \<Rightarrow> py_exception + BookingResult) \<Rightarrow> pystr
     \<Rightarrow> booking_confirmations \<Rightarrow> (http_exception + BookingResult) \<times> booking_confirmations" where
  "execute_booking_with book confirmation_id confirmations =
     (case confirmations confirmation_id of
        None \<Rightarrow> (Inl (HTTPException 404 MSG_CONFIRMATION_NOT_FOUND), confirmations)
      | Some confirmation \<Rightarrow>
          (case book (hotel confirmation) (booking_request confirmation) of
             Inr result \<Rightarrow>
               (Inr result,
                confirmations(confirmation_id \<mapsto> confirmation\<lparr>confirmed := True\<rparr>))
           | Inl e \<Rightarrow> (Inl (HTTPException 500 (str_of e)), confirmations)))"

text \<open>With the service of this repository, whose \<open>book_hotel\<close> never raises.\<close>

definition execute_booking ::
  "'r SutochnoService \<Rightarrow> pystr \<Rightarrow> booking_confirmations
     \<Rightarrow> (http_exception + BookingResult) \<times> booking_confirmations" where
  "execute_booking svc = execute_booking_with (\<lambda>h r. Inr (fst (book_hotel svc h r)))"

text \<open>Concrete values for the examples below.\<close>

definition example_guest :: GuestInfo where
  "example_guest = \<lparr>first_name = ascii ''Ivan'', last_name = ascii ''Petrov'',
     middle_name = None, phone = ascii ''+70000000000'', email = ascii ''ivan@example.org''\<rparr>"

definition example_payment :: PaymentInfo where
  "example_payment = \<lparr>card_number = None, card_holder = None, expiry_month = None,
     expiry_year = None, cvv = None, payment_method = CARD\<rparr>"

definition example_kwargs :: "date \<Rightarrow> date \<Rightarrow> BookingRequest_kwargs" where
  "example_kwargs ci co =
     \<lparr>kw_city = Given (ascii ''kazan''), kw_check_in = Given ci, kw_check_out = Given co,
      kw_guests_count = Absent, kw_min_price = Absent, kw_max_price = Absent,
      kw_apartment_type = Absent, kw_amenities = Absent, kw_district = Absent,
      kw_guest_info = Given example_guest, kw_payment_info = Given example_payment\<rparr>"

definition example_request :: "date \<Rightarrow> date \<Rightarrow> BookingRequest" where
  "example_request ci co =
     \<lparr>city = ascii ''kazan'', check_in = ci, check_out = co, guests_count = 1,
      min_price = None, max_price = None, apartment_type = None, amenities = None,
      district = None, guest_info = example_guest, payment_info = example_payment\<rparr>"

definition example_hotel :: HotelInfo where
  "example_hotel =
     \<lparr>hotel_id = ascii ''h1'', title = ascii ''Flat'', description = None,
      price_per_night = 3000, total_price = 9000, rating = None, reviews_count = None,
      address = ascii ''Pushkina 10'', hotel_district = None, rooms_count = None,
      guests_capacity = 4, hotel_amenities = [], free_cancellation = True,
      cancellation_policy = None, photos = [], url = ascii ''https://sutochno.ru/1''\<rparr>"

definition example_task :: search_task where
  "example_task =
     \<lparr>task_status = ascii ''searching'', task_progress = 30, task_message = [],
      task_booking_request = example_request 10 12, task_result = None,
      task_error = None, task_created_at = 0\<rparr>"

definition example_confirmation :: BookingConfirmation where
  "example_confirmation =
     \<lparr>hotel = example_hotel, booking_request = example_request 10 12, confirmed = False\<rparr>"

text \<open>A service as FastAPI injects it: no agent yet, and an agent that would answer
  every task with the number 0.\<close>

definition fresh_service :: "nat SutochnoService" where
  "fresh_service = \<lparr>agent = None, agent_run = (\<lambda>t. Inr 0)\<rparr>"

text \<open>A stand-in for a service whose \<open>book_hotel\<close> reports a successful booking.\<close>

definition succeeding_book :: "HotelInfo \<Rightarrow> BookingRequest \<Rightarrow> py_exception + BookingResult" where
  "succeeding_book h r =
     Inr \<lparr>success = True, booking_id = Some (ascii ''b1''), confirmation_number = None,
          total_amount = total_price h, message = [], booking_url = None\<rparr>"

section \<open>Python strings and the \<open>re\<close> module\<close>

text \<open>
  The characters \<open>str.strip()\<close> removes and the class \<open>\s\<close> of a \<open>str\<close> pattern
  matches are the same: the Unicode whitespace of CPython (\<open>Py_UNICODE_ISSPACE\<close>).
\<close>

definition isspace :: "pychar \<Rightarrow> bool" where
  "isspace c \<longleftrightarrow>
     (9 \<le> c \<and> c \<le> 13) \<or> (28 \<le> c \<and> c \<le> 32) \<or> c = 133 \<or> c = 160 \<or> c = 5760
     \<or> (8192 \<le> c \<and> c \<le> 8202) \<or> c = 8232 \<or> c = 8233 \<or> c = 8239 \<or> c = 8287
     \<or> c = 12288"

text \<open>\<open>s.lstrip(chars)\<close>, \<open>s.rstrip(chars)\<close> and \<open>s.strip(chars)\<close>, the set of characters
  given by a predicate.\<close>

definition lstrip_with :: "(pychar \<Rightarrow> bool) \<Rightarrow> pystr \<Rightarrow> pystr" where
  "lstrip_with P s = dropWhile P s"

definition rstrip_with :: "(pychar \<Rightarrow> bool) \<Rightarrow> pystr \<Rightarrow> pystr" where
  "rstrip_with P s = rev (dropWhile P (rev s))"

definition strip_with :: "(pychar \<Rightarrow> bool) \<Rightarrow> pystr \<Rightarrow> pystr" where
  "strip_with P s = rstrip_with P (lstrip_with P s)"

text \<open>\<open>s.strip()\<close>\<close>

definition py_strip :: "pystr \<Rightarrow> pystr" where
  "py_strip s = strip_with isspace s"

text \<open>\<open>s.strip(chars)\<close>\<close>

definition py_strip_chars :: "pystr \<Rightarrow> pystr \<Rightarrow> pystr" where
  "py_strip_chars chars s = strip_with (\<lambda>c. c \<in> set chars) s"

text \<open>\<open>s[i:j]\<close> for indices that are not negative.\<close>

definition py_slice :: "nat \<Rightarrow> nat \<Rightarrow> 'a list \<Rightarrow> 'a list" where
  "py_slice i j s = take (j - i) (drop i s)"

text \<open>\<open>s[:n]\<close> for every integer \<open>n\<close>: a negative \<open>n\<close> counts from the end.\<close>

definition py_slice_to :: "int \<Rightarrow> 'a list \<Rightarrow> 'a list" where
  "py_slice_to n s = (if 0 \<le> n then take (nat n) s else take (length s - nat (- n)) s)"

text \<open>\<open>s.find(c)\<close> and \<open>s.rfind(c)\<close> for one character \<open>c\<close>; \<open>-1\<close> when it does not occur.\<close>

fun py_find :: "pychar \<Rightarrow> pystr \<Rightarrow> int" where
  "py_find c [] = - 1"
| "py_find c (x # xs) =
     (if x = c then 0 else (let i = py_find c xs in if i = - 1 then - 1 else i + 1))"

fun py_rfind :: "pychar \<Rightarrow> pystr \<Rightarrow> int" where
  "py_rfind c [] = - 1"
| "py_rfind c (x # xs) =
     (let i = py_rfind c xs in if i \<noteq> - 1 then i + 1 else if x = c then 0 else - 1)"

text \<open>
  The regular expressions of the source are sequences of literal characters, starred
  character classes (greedy \<open>*\<close> or lazy \<open>*?\<close>) and one capturing group. A group is
  held by its two parentheses.
\<close>

datatype char_class = Whitespace | Not_whitespace | Either char_class char_class

fun in_class :: "char_class \<Rightarrow> pychar \<Rightarrow> bool" where
  "in_class Whitespace c = isspace c"
| "in_class Not_whitespace c = (\<not> isspace c)"
| "in_class (Either a b) c = (in_class a c \<or> in_class b c)"

datatype rx_item =
    Lit pychar
  | Star_greedy char_class
  | Star_lazy char_class
  | Group_open
  | Group_close

type_synonym regex = "rx_item list"

text \<open>
  The backtracking matcher of \<open>re\<close>, at the start of the text \<open>s\<close>: the first way to
  match the pattern, in the order in which the engine tries them. A greedy star tries
  the longest run first and gives characters back one at a time; a lazy star tries the
  empty run first and takes characters one at a time. The result is what is left of
  the text at each parenthesis of the group, in their order, and what is left after
  the match.
\<close>

fun match_here :: "regex \<Rightarrow> pystr \<Rightarrow> (pystr list \<times> pystr) option" where
  "match_here [] s = Some ([], s)"
| "match_here (Lit c # r) s =
     (case s of [] \<Rightarrow> None | x # xs \<Rightarrow> if x = c then match_here r xs else None)"
| "match_here (Group_open # r) s =
     (case match_here r s of None \<Rightarrow> None | Some (marks, rest) \<Rightarrow> Some (s # marks, rest))"
| "match_here (Group_close # r) s =
     (case match_here r s of None \<Rightarrow> None | Some (marks, rest) \<Rightarrow> Some (s # marks, rest))"
| "match_here (Star_greedy k # r) s =
     (case s of
        [] \<Rightarrow> match_here r []
      | x # xs \<Rightarrow>
          if in_class k x
          then (case match_here (Star_greedy k # r) xs of
                  Some m \<Rightarrow> Some m
                | None \<Rightarrow> match_here r (x # xs))
          else match_here r (x # xs))"
| "match_here (Star_lazy k # r) s =
     (case match_here r s of
        Some m \<Rightarrow> Some m
      | None \<Rightarrow>
          (case s of
             [] \<Rightarrow> None
           | x # xs \<Rightarrow> if in_class k x then match_here (Star_lazy k # r) xs else None))"

text \<open>\<open>re.search\<close>: the first position of the text, from the left, where the pattern
  matches.\<close>

fun search :: "regex \<Rightarrow> pystr \<Rightarrow> (pystr list \<times> pystr) option" where
  "search p [] = match_here p []"
| "search p (x # xs) =
     (case match_here p (x # xs) of Some m \<Rightarrow> Some m | None \<Rightarrow> search p xs)"

text \<open>The text of the group: from its opening to its closing parenthesis.\<close>

fun group1 :: "pystr list \<Rightarrow> pystr" where
  "group1 (at_open # at_close # _) = take (length at_open - length at_close) at_open"
| "group1 _ = []"

text \<open>
  \<open>re.findall\<close> for a pattern with one group: the group of every match, the matches
  found from left to right without overlap. The patterns of the source have literal
  characters and cannot match the empty string; after an empty match at its start
  the scan moves on by one character.
\<close>

function findall :: "regex \<Rightarrow> pystr \<Rightarrow> pystr list" where
  "findall p s =
     (case search p s of
        None \<Rightarrow> []
      | Some (marks, rest) \<Rightarrow>
          group1 marks #
            (if length rest < length s then findall p rest
             else (case s of [] \<Rightarrow> [] | _ # xs \<Rightarrow> findall p xs)))"
  by pat_completeness auto
termination
  by (relation "measure (\<lambda>(p, s). length s)") auto

text \<open>\<^verbatim>\<open>r"```json\s*([\s\S]*?)\s*```"\<close>; 96 is the backquote.\<close>

definition JSON_FENCE_PATTERN :: regex where
  "JSON_FENCE_PATTERN =
     map Lit ([96, 96, 96] @ ascii ''json'')
     @ [Star_greedy Whitespace,
        Group_open, Star_lazy (Either Whitespace Not_whitespace), Group_close,
        Star_greedy Whitespace]
     @ map Lit [96, 96, 96]"

text \<open>\<^verbatim>\<open>r"(\{[\s\S]*\})"\<close>; 123 and 125 are the braces.\<close>

definition JSON_OBJECT_PATTERN :: regex where
  "JSON_OBJECT_PATTERN =
     [Group_open, Lit 123, Star_greedy (Either Whitespace Not_whitespace), Lit 125,
      Group_close]"

section \<open>JSON values and the library calls of the product service\<close>

text \<open>
  What \<open>json.loads\<close> returns, and what the untyped values of the source are: the
  \<open>dict\<close> of a JSON object is the list of its items, each key once.
\<close>

datatype json =
    JNull
  | JBool bool
  | JInt int
  | JFloat pyfloat
  | JStr pystr
  | JArray "json list"
  | JObject "(pystr \<times> json) list"

fun py_type_name :: "json \<Rightarrow> string" where
  "py_type_name JNull = ''NoneType''"
| "py_type_name (JBool _) = ''bool''"
| "py_type_name (JInt _) = ''int''"
| "py_type_name (JFloat _) = ''float''"
| "py_type_name (JStr _) = ''str''"
| "py_type_name (JArray _) = ''list''"
| "py_type_name (JObject _) = ''dict''"

text \<open>The exceptions Python raises for an operation the type of a value does not
  have; 39 is the apostrophe.\<close>

definition AttributeError_get :: "json \<Rightarrow> py_exception" where
  "AttributeError_get v =
     PyException ([39] @ ascii (py_type_name v) @ [39] @ ascii '' object has no attribute ''
                  @ [39] @ ascii ''get'' @ [39])"

definition TypeError_float :: "json \<Rightarrow> py_exception" where
  "TypeError_float v =
     PyException (ascii ''float() argument must be a string or a real number, not ''
                  @ [39] @ ascii (py_type_name v) @ [39])"

definition TypeError_not_iterable :: "json \<Rightarrow> py_exception" where
  "TypeError_not_iterable v =
     PyException ([39] @ ascii (py_type_name v) @ [39] @ ascii '' object is not iterable'')"

text \<open>\<open>d.get(key, default)\<close>: only a \<open>dict\<close> has the attribute.\<close>

fun py_get :: "json \<Rightarrow> pystr \<Rightarrow> json \<Rightarrow> py_exception + json" where
  "py_get (JObject items) key dflt =
     Inr (case map_of items key of Some v \<Rightarrow> v | None \<Rightarrow> dflt)"
| "py_get v key dflt = Inl (AttributeError_get v)"

text \<open>\<open>for x in v\<close>: a list gives its elements, a string its characters, a \<open>dict\<close> its
  keys; nothing else is iterable.\<close>

fun py_iter :: "json \<Rightarrow> py_exception + json list" where
  "py_iter (JArray xs) = Inr xs"
| "py_iter (JStr s) = Inr (map (\<lambda>c. JStr [c]) s)"
| "py_iter (JObject items) = Inr (map (\<lambda>(k, _). JStr k) items)"
| "py_iter v = Inl (TypeError_not_iterable v)"

text \<open>Sequencing of calls that may raise: the first exception ends the sequence.\<close>

definition then_do :: "'e + 'a \<Rightarrow> ('a \<Rightarrow> 'e + 'b) \<Rightarrow> 'e + 'b" where
  "then_do r f = (case r of Inl e \<Rightarrow> Inl e | Inr v \<Rightarrow> f v)"

fun for_each :: "('a \<Rightarrow> 'e + 'b) \<Rightarrow> 'a list \<Rightarrow> 'e + 'b list" where
  "for_each f [] = Inr []"
| "for_each f (x # xs) =
     (case f x of
        Inl e \<Rightarrow> Inl e
      | Inr y \<Rightarrow> (case for_each f xs of Inl e \<Rightarrow> Inl e | Inr ys \<Rightarrow> Inr (y # ys)))"

section \<open>The built-in \<open>list.sort\<close>\<close>

text \<open>
  \<open>list.sort\<close> compares with \<open><\<close> only. For a list of fewer than 64 elements CPython
  (\<open>listobject.c\<close> of CPython 3.11) sorts in one pass: \<open>count_run\<close> takes the run the
  list begins with, either never falling or strictly falling, a strictly falling run
  is reversed, and \<open>binarysort\<close> inserts each element that is left into the sorted
  part, at the place a binary search gives: after the elements it is not less than.
\<close>

fun run_descending :: "('a \<Rightarrow> 'a \<Rightarrow> bool) \<Rightarrow> 'a \<Rightarrow> 'a list \<Rightarrow> nat" where
  "run_descending lt prev [] = 0"
| "run_descending lt prev (x # xs) = (if lt x prev then Suc (run_descending lt x xs) else 0)"

fun run_ascending :: "('a \<Rightarrow> 'a \<Rightarrow> bool) \<Rightarrow> 'a \<Rightarrow> 'a list \<Rightarrow> nat" where
  "run_ascending lt prev [] = 0"
| "run_ascending lt prev (x # xs) = (if lt x prev then 0 else Suc (run_ascending lt x xs))"

text \<open>\<open>count_run\<close>: whether the run is descending, and its length.\<close>

fun count_run :: "('a \<Rightarrow> 'a \<Rightarrow> bool) \<Rightarrow> 'a list \<Rightarrow> bool \<times> nat" where
  "count_run lt (a # b # rest) =
     (if lt b a then (True, 2 + run_descending lt b rest)
      else (False, 2 + run_ascending lt b rest))"
| "count_run lt xs = (False, length xs)"

text \<open>The binary search of \<open>binarysort\<close> for the place of \<open>pivot\<close> in \<open>a[l:r]\<close>.\<close>

function bisect :: "('a \<Rightarrow> 'a \<Rightarrow> bool) \<Rightarrow> 'a \<Rightarrow> 'a list \<Rightarrow> nat \<Rightarrow> nat \<Rightarrow> nat" where
  "bisect lt pivot a l r =
     (if l < r
      then (let p = l + (r - l) div 2
            in if lt pivot (a ! p) then bisect lt pivot a l p
               else bisect lt pivot a (p + 1) r)
      else l)"
  by pat_completeness auto
termination
  by (relation "measure (\<lambda>(lt, pivot, a, l, r). r - l)") auto

declare bisect.simps [simp del]

text \<open>\<open>binarysort\<close>: \<open>a\<close> is the sorted part, the second list what is left to insert.\<close>

fun binarysort :: "('a \<Rightarrow> 'a \<Rightarrow> bool) \<Rightarrow> 'a list \<Rightarrow> 'a list \<Rightarrow> 'a list" where
  "binarysort lt a [] = a"
| "binarysort lt a (pivot # rest) =
     (let l = bisect lt pivot a 0 (length a)
      in binarysort lt (take l a @ pivot # drop l a) rest)"

definition listsort :: "('a \<Rightarrow> 'a \<Rightarrow> bool) \<Rightarrow> 'a list \<Rightarrow> 'a list" where
  "listsort lt xs =
     (let (descending, n) = count_run lt xs;
          run = take n xs
      in binarysort lt (if descending then rev run else run) (drop n xs))"

text \<open>
  \<open>xs.sort(key=key, reverse=reverse)\<close> with keys that are floats, for a list of fewer
  than 64 elements: with \<open>reverse\<close> the list is reversed before it is sorted and
  again after it.
\<close>

definition cpython_list_sort :: "('a \<Rightarrow> pyfloat) \<Rightarrow> bool \<Rightarrow> 'a list \<Rightarrow> 'a list" where
  "cpython_list_sort key reverse xs =
     (let ys = listsort (\<lambda>a b. float_lt (key a) (key b)) (if reverse then rev xs else xs)
      in if reverse then rev ys else ys)"

text \<open>
  What \<open>list.sort\<close> promises of a call with \<open>reverse=True\<close>, for a list of any length:
  the list is rearranged and not changed otherwise; and when no key is NaN, so that
  \<open><\<close> orders the keys, the sort is stable: the list comes in descending order of the
  keys, elements of equal key in their former order. That list is unique: it is the
  stable sort by the negated keys.
\<close>

fun float_value :: "pyfloat \<Rightarrow> real" where
  "float_value (Float a) = a"
| "float_value NaN = 0"

definition list_sort_contract ::
  "(('a \<Rightarrow> pyfloat) \<Rightarrow> bool \<Rightarrow> 'a list \<Rightarrow> 'a list) \<Rightarrow> ('a \<Rightarrow> pyfloat) \<Rightarrow> 'a list \<Rightarrow> bool" where
  "list_sort_contract list_sort_impl key xs \<longleftrightarrow>
     mset (list_sort_impl key True xs) = mset xs
     \<and> ((\<forall>x\<in>set xs. key x \<noteq> NaN) \<longrightarrow>
          list_sort_impl key True xs = sort_key (\<lambda>x. - float_value (key x)) xs)"

section \<open>models/product.py\<close>

record PriceRange =
  range_min_price :: "pyfloat option"
  range_max_price :: "pyfloat option"
  range_currency :: pystr

datatype ProductCategory =
  ELECTRONICS | CLOTHING | HOME | BEAUTY | SPORTS | BOOKS | TOYS | FOOD | OTHER

record ProductRequest =
  query :: pystr
  delivery_city :: pystr
  category :: "ProductCategory option"
  price_range :: "PriceRange option"
  brand :: "pystr option"
  features :: "pystr list option"
  exclude_features :: "pystr list option"
  marketplaces :: "pystr list option"
  max_results :: int

record Product =
  product_name :: pystr
  product_description :: "pystr option"
  price :: pyfloat
  currency :: pystr
  image_url :: "pystr option"
  product_url :: pystr
  marketplace :: pystr
  product_rating :: "pyfloat option"
  product_reviews_count :: "int option"
  product_features :: "(pystr \<times> json) list option"
  availability :: "pystr option"

record ProductRecommendation =
  product :: Product
  relevance_score :: pyfloat
  recommendation_reason :: pystr

record ProductRecommendationsResponse =
  recommendations :: "ProductRecommendation list"
  query_details :: ProductRequest
  additional_questions :: "pystr list option"

text \<open>An evaluated product: \<open>Tuple[Product, float, str]\<close>.\<close>

type_synonym evaluated_product = "Product \<times> pyfloat \<times> pystr"

text \<open>
  The calls of the service into libraries, as results or exceptions: \<open>json.loads\<close>,
  the built-in \<open>float\<close> on a string and on an integer, the validation pydantic runs
  when a model of \<open>models/product.py\<close> is built from untyped values,
  \<open>_extract_marketplace_name\<close>, which raises what \<open>urlparse\<close> raises on the URL, and
  \<open>list.sort\<close> on a list of evaluated products, by its key and its \<open>reverse\<close> flag.
\<close>

record py_lib =
  json_loads :: "pystr \<Rightarrow> py_exception + json"
  float_of_str :: "pystr \<Rightarrow> py_exception + pyfloat"
  float_of_int :: "int \<Rightarrow> py_exception + pyfloat"
  Product_init :: "json \<Rightarrow> py_exception + Product"
  ProductRecommendation_init :: "Product \<Rightarrow> json \<Rightarrow> json \<Rightarrow> py_exception + ProductRecommendation"
  ProductRecommendationsResponse_init ::
    "ProductRecommendation list \<Rightarrow> ProductRequest \<Rightarrow> json
       \<Rightarrow> py_exception + ProductRecommendationsResponse"
  extract_marketplace_name :: "pystr \<Rightarrow> py_exception + pystr"
  list_sort ::
    "(evaluated_product \<Rightarrow> pyfloat) \<Rightarrow> bool \<Rightarrow> evaluated_product list
       \<Rightarrow> evaluated_product list"

text \<open>\<open>float(v)\<close>\<close>

fun py_float :: "py_lib \<Rightarrow> json \<Rightarrow> py_exception + pyfloat" where
  "py_float lib (JFloat f) = Inr f"
| "py_float lib (JInt i) = float_of_int lib i"
| "py_float lib (JBool b) = Inr (Float (if b then 1 else 0))"
| "py_float lib (JStr s) = float_of_str lib s"
| "py_float lib v = Inl (TypeError_float v)"

section \<open>The language model\<close>

text \<open>
  The prompts are built by \<open>platilka.utils.prompts\<close> from the arguments below; a
  prompt is held by the function that builds it and its arguments.
\<close>

datatype prompt =
    GenerateSearchQueryPrompt ProductRequest
  | EvaluateProductRelevancePrompt ProductRequest Product
  | GenerateRecommendationsPrompt ProductRequest "evaluated_product list" int

text \<open>
  \<open>self.llm\<close>: the answer to a call is the content of the response, or an exception.
  It may depend on the prompt and on how many calls came before; \<open>llm_calls\<close> counts
  the calls made.
\<close>

record llm =
  llm_reply :: "nat \<Rightarrow> prompt \<Rightarrow> py_exception + pystr"
  llm_calls :: nat

text \<open>\<open>await self.llm.ainvoke([HumanMessage(content=prompt)])\<close>\<close>

definition ainvoke :: "llm \<Rightarrow> prompt \<Rightarrow> (py_exception + pystr) \<times> llm" where
  "ainvoke l p = (llm_reply l (llm_calls l) p, l\<lparr>llm_calls := llm_calls l + 1\<rparr>)"

section \<open>services/product_service.py\<close>

text \<open>\<open>_extract_json_from_text\<close>\<close>

definition extract_json_from_text :: "pystr \<Rightarrow> pystr option" where
  "extract_json_from_text text =
     (case findall JSON_FENCE_PATTERN text of
        m # _ \<Rightarrow> Some (py_strip m)
      | [] \<Rightarrow>
          (case findall JSON_OBJECT_PATTERN text of
             m # _ \<Rightarrow> Some (py_strip m)
           | [] \<Rightarrow> None))"

text \<open>\<open>generate_search_query\<close>; 34 is the double quote and 39 the single quote. An
  exception of the model is not caught.\<close>

definition generate_search_query :: "llm \<Rightarrow> ProductRequest \<Rightarrow> (py_exception + pystr) \<times> llm" where
  "generate_search_query l request =
     (let (response, l1) = ainvoke l (GenerateSearchQueryPrompt request)
      in case response of
           Inl e \<Rightarrow> (Inl e, l1)
         | Inr content \<Rightarrow>
             (Inr (py_strip (py_strip_chars [39] (py_strip_chars [34] (py_strip content)))),
              l1))"

definition MSG_RELEVANCE_FAILED :: pystr where
  "MSG_RELEVANCE_FAILED =
     [1053, 1077, 32, 1091, 1076, 1072, 1083, 1086, 1089, 1100, 32, 1086, 1094, 1077,
      1085, 1080, 1090, 1100, 32, 1088, 1077, 1083, 1077, 1074, 1072, 1085, 1090, 1085,
      1086, 1089, 1090, 1100, 32, 1090, 1086, 1074, 1072, 1088, 1072]"

definition MSG_EVAL_ERROR_PREFIX :: pystr where
  "MSG_EVAL_ERROR_PREFIX =
     [1054, 1096, 1080, 1073, 1082, 1072, 32, 1087, 1088, 1080, 32, 1086, 1094, 1077,
      1085, 1082, 1077, 58, 32]"

text \<open>
  The body of the \<open>try\<close> of \<open>evaluate_product_relevance\<close>: \<open>Inl\<close> is an exception
  raised in it, \<open>Inr\<close> the pair it returns. \<open>if not response_json\<close> holds for \<open>None\<close>
  and for the empty string.
\<close>

definition relevance_try :: "py_lib \<Rightarrow> pystr \<Rightarrow> py_exception + (pyfloat \<times> json)" where
  "relevance_try lib content =
     (case extract_json_from_text content of
        None \<Rightarrow> Inr (Float 0, JStr MSG_RELEVANCE_FAILED)
      | Some response_json \<Rightarrow>
          if response_json = [] then Inr (Float 0, JStr MSG_RELEVANCE_FAILED)
          else
            then_do (json_loads lib response_json) (\<lambda>data.
            then_do (py_get data (ascii ''relevance_score'') (JFloat (Float 0))) (\<lambda>score_value.
            then_do (py_float lib score_value) (\<lambda>score.
            then_do (py_get data (ascii ''recommendation_reason'') (JStr [])) (\<lambda>reason.
            Inr (score, reason))))))"

text \<open>
  \<open>evaluate_product_relevance\<close>. The call of the model is before the \<open>try\<close>, so its
  exception leaves the function; an exception inside the \<open>try\<close> becomes the pair of
  0.0 and a message. The reason is returned as it was parsed, whatever its type.
\<close>

definition evaluate_product_relevance ::
  "py_lib \<Rightarrow> llm \<Rightarrow> ProductRequest \<Rightarrow> Product \<Rightarrow> (py_exception + (pyfloat \<times> json)) \<times> llm" where
  "evaluate_product_relevance lib l request item =
     (let (response, l1) = ainvoke l (EvaluateProductRelevancePrompt request item)
      in case response of
           Inl e \<Rightarrow> (Inl e, l1)
         | Inr content \<Rightarrow>
             (case relevance_try lib content of
                Inr result \<Rightarrow> (Inr result, l1)
              | Inl e \<Rightarrow> (Inr (Float 0, JStr (MSG_EVAL_ERROR_PREFIX @ str_of e)), l1)))"

text \<open>
  \<open>_fallback_recommendations\<close>. \<open>evaluated_products.sort(key=lambda x: x[1],
  reverse=True)\<close> sorts the list of the caller in place, so the result holds the
  response and the list as the call leaves it. The triples are typed, so building the
  models from them raises nothing.
\<close>

definition fallback_recommendations ::
  "py_lib \<Rightarrow> ProductRequest \<Rightarrow> evaluated_product list
     \<Rightarrow> ProductRecommendationsResponse \<times> evaluated_product list" where
  "fallback_recommendations lib request evaluated_products =
     (let sorted_products = list_sort lib (\<lambda>x. fst (snd x)) True evaluated_products;
          top_products = py_slice_to (max_results request) sorted_products;
          recs = map (\<lambda>(p, score, reason).
                        \<lparr>product = p, relevance_score = score,
                         recommendation_reason = reason\<rparr>) top_products
      in (\<lparr>recommendations = recs, query_details = request,
           additional_questions = Some []\<rparr>,
          sorted_products))"

text \<open>The loop body of \<open>generate_recommendations\<close>, for one element of
  \<open>data["recommendations"]\<close>.\<close>

definition recommendation_of :: "py_lib \<Rightarrow> json \<Rightarrow> py_exception + ProductRecommendation" where
  "recommendation_of lib rec_data =
     then_do (py_get rec_data (ascii ''product'') (JObject [])) (\<lambda>product_data.
     then_do (Product_init lib product_data) (\<lambda>p.
     then_do (py_get rec_data (ascii ''relevance_score'') (JFloat (Float 0))) (\<lambda>score.
     then_do (py_get rec_data (ascii ''recommendation_reason'') (JStr [])) (\<lambda>reason.
     ProductRecommendation_init lib p score reason))))"

text \<open>The body of the \<open>try\<close> of \<open>generate_recommendations\<close> once a JSON text was
  extracted.\<close>

definition ranking_try ::
  "py_lib \<Rightarrow> ProductRequest \<Rightarrow> pystr \<Rightarrow> py_exception + ProductRecommendationsResponse" where
  "ranking_try lib request response_json =
     then_do (json_loads lib response_json) (\<lambda>data.
     then_do (py_get data (ascii ''recommendations'') (JArray [])) (\<lambda>rec_list.
     then_do (py_iter rec_list) (\<lambda>rec_items.
     then_do (for_each (recommendation_of lib) rec_items) (\<lambda>recs.
     then_do (py_get data (ascii ''additional_questions'') (JArray [])) (\<lambda>questions.
     ProductRecommendationsResponse_init lib recs request questions)))))"

text \<open>
  \<open>generate_recommendations\<close>: the response or the exception of the model, the list
  of the caller after the call, and the model after the call.
\<close>

definition generate_recommendations ::
  "py_lib \<Rightarrow> llm \<Rightarrow> ProductRequest \<Rightarrow> evaluated_product list
     \<Rightarrow> (py_exception + ProductRecommendationsResponse) \<times> evaluated_product list \<times> llm" where
  "generate_recommendations lib l request evaluated_products =
     (let prompt = GenerateRecommendationsPrompt request evaluated_products
                     (max_results request);
          (response, l1) = ainvoke l prompt;
          fallback = (let (resp, sorted_products) =
                            fallback_recommendations lib request evaluated_products
                      in (Inr resp, sorted_products, l1))
      in case response of
           Inl e \<Rightarrow> (Inl e, evaluated_products, l1)
         | Inr content \<Rightarrow>
             (case extract_json_from_text content of
                None \<Rightarrow> fallback
              | Some response_json \<Rightarrow>
                  if response_json = [] then fallback
                  else (case ranking_try lib request response_json of
                          Inl e \<Rightarrow> fallback
                        | Inr resp \<Rightarrow> (Inr resp, evaluated_products, l1))))"

section \<open>services/broswer_service.py\<close>

text \<open>\<open>result.history[-1].result[0].extracted_content\<close>: a string, or another value.\<close>

datatype agent_content = Content_str pystr | Content_other json

text \<open>
  The browser agents are the outside world: what the agent created by the \<open>i\<close>-th
  task for a URL and a request ends with, the extracted content or an exception.
\<close>

type_synonym browser = "nat \<Rightarrow> pystr \<Rightarrow> ProductRequest \<Rightarrow> py_exception + agent_content"

text \<open>The keyword arguments of \<open>Product(...)\<close> in \<open>extract_product_info\<close>, evaluated
  in their order: a \<open>.get\<close>, \<open>float\<close> or \<open>_extract_marketplace_name\<close> that raises ends the
  call.\<close>

definition product_of_data :: "py_lib \<Rightarrow> pystr \<Rightarrow> json \<Rightarrow> py_exception + Product" where
  "product_of_data lib page_url product_data =
     then_do (py_get product_data (ascii ''name'') (JStr [])) (\<lambda>v_name.
     then_do (py_get product_data (ascii ''description'') JNull) (\<lambda>v_description.
     then_do (py_get product_data (ascii ''price'') (JInt 0)) (\<lambda>v_price.
     then_do (py_float lib v_price) (\<lambda>price_float.
     then_do (py_get product_data (ascii ''currency'') (JStr (ascii ''RUB''))) (\<lambda>v_currency.
     then_do (py_get product_data (ascii ''image_url'') JNull) (\<lambda>v_image_url.
     then_do (extract_marketplace_name lib page_url) (\<lambda>marketplace_name.
     then_do (py_get product_data (ascii ''rating'') JNull) (\<lambda>v_rating.
     then_do (py_get product_data (ascii ''reviews_count'') JNull) (\<lambda>v_reviews_count.
     then_do (py_get product_data (ascii ''features'') JNull) (\<lambda>v_features.
     then_do (py_get product_data (ascii ''availability'') JNull) (\<lambda>v_availability.
     Product_init lib (JObject
       [(ascii ''name'', v_name), (ascii ''description'', v_description),
        (ascii ''price'', JFloat price_float), (ascii ''currency'', v_currency),
        (ascii ''image_url'', v_image_url), (ascii ''product_url'', JStr page_url),
        (ascii ''marketplace'', JStr marketplace_name),
        (ascii ''rating'', v_rating), (ascii ''reviews_count'', v_reviews_count),
        (ascii ''features'', v_features),
        (ascii ''availability'', v_availability)]))))))))))))"

text \<open>
  The JSON scan of \<open>extract_product_info\<close>: \<open>None\<close> when the string has no brace to
  start or to end with, else what \<open>json.loads\<close> makes of the slice.
\<close>

definition product_data_of :: "py_lib \<Rightarrow> agent_content \<Rightarrow> py_exception + json option" where
  "product_data_of lib extracted_content =
     (case extracted_content of
        Content_str text \<Rightarrow>
          (let start_idx = py_find 123 text;
               end_idx = py_rfind 125 text + 1
           in if start_idx \<noteq> - 1 \<and> end_idx \<noteq> 0
              then then_do (json_loads lib (py_slice (nat start_idx) (nat end_idx) text))
                     (\<lambda>data. Inr (Some data))
              else Inr None)
      | Content_other v \<Rightarrow> Inr (Some v))"

text \<open>\<open>extract_product_info\<close>: every exception is logged and raised again.\<close>

definition extract_product_info ::
  "py_lib \<Rightarrow> browser \<Rightarrow> nat \<Rightarrow> pystr \<Rightarrow> ProductRequest \<Rightarrow> py_exception + Product option" where
  "extract_product_info lib browse i page_url request =
     then_do (browse i page_url request) (\<lambda>extracted_content.
     then_do (product_data_of lib extracted_content) (\<lambda>found.
       case found of
         None \<Rightarrow> Inr None
       | Some product_data \<Rightarrow>
           then_do (product_of_data lib page_url product_data) (\<lambda>p. Inr (Some p))))"

text \<open>The inner function of \<open>extract_multiple_products\<close>: an exception becomes
  \<open>None\<close>.\<close>

definition extract_single_product ::
  "py_lib \<Rightarrow> browser \<Rightarrow> ProductRequest \<Rightarrow> nat \<times> pystr \<Rightarrow> Product option" where
  "extract_single_product lib browse request task =
     (case extract_product_info lib browse (fst task) (snd task) request of
        Inl e \<Rightarrow> None
      | Inr found \<Rightarrow> found)"

text \<open>
  \<open>extract_multiple_products\<close>: one task for each URL, in the order of the URLs;
  \<open>asyncio.gather\<close> gives the results of the tasks in the order of the tasks.
\<close>

definition extraction_tasks :: "pystr list \<Rightarrow> (nat \<times> pystr) list" where
  "extraction_tasks urls = enumerate 0 urls"

definition extract_multiple_products ::
  "py_lib \<Rightarrow> browser \<Rightarrow> pystr list \<Rightarrow> ProductRequest \<Rightarrow> Product list" where
  "extract_multiple_products lib browse urls request =
     (let tasks = extraction_tasks urls;
          results = map (extract_single_product lib browse request) tasks;
          products = [p. Some p \<leftarrow> results]
      in products)"

text \<open>Concrete values of the product service for the examples below.\<close>

definition example_product_request :: "int \<Rightarrow> ProductRequest" where
  "example_product_request n =
     \<lparr>query = ascii ''phone'', delivery_city = ascii ''kazan'', category = None,
      price_range = None, brand = None, features = None, exclude_features = None,
      marketplaces = None, max_results = n\<rparr>"

definition example_product :: "pystr \<Rightarrow> Product" where
  "example_product n =
     \<lparr>product_name = n, product_description = None, price = Float 100,
      currency = ascii ''RUB'',
      image_url = None, product_url = ascii ''https://ozon.ru/1'', marketplace = ascii ''Ozon'',
      product_rating = None, product_reviews_count = None, product_features = None,
      availability = None\<rparr>"

definition example_evaluated :: "evaluated_product list" where
  "example_evaluated =
     [(example_product (ascii ''a''), Float 1, ascii ''low''),
      (example_product (ascii ''b''), Float 3, ascii ''high''),
      (example_product (ascii ''c''), Float 2, ascii ''mid'')]"

text \<open>Evaluated products with a score that is NaN: the scores are 1.0, NaN, 3.0 and
  2.0.\<close>

definition example_evaluated_nan :: "evaluated_product list" where
  "example_evaluated_nan =
     [(example_product (ascii ''a''), Float 1, ascii ''low''),
      (example_product (ascii ''b''), NaN, ascii ''unknown''),
      (example_product (ascii ''c''), Float 3, ascii ''high''),
      (example_product (ascii ''d''), Float 2, ascii ''mid'')]"

text \<open>A model that answers every call with the same text.\<close>

definition constant_llm :: "pystr \<Rightarrow> llm" where
  "constant_llm answer = \<lparr>llm_reply = (\<lambda>n p. Inr answer), llm_calls = 0\<rparr>"

text \<open>Library calls where \<open>json.loads\<close>, \<open>float\<close> on a string and pydantic raise whatever
  they are given, every URL is its own marketplace name, and \<open>list.sort\<close> is the sort of
  CPython for short lists.\<close>

definition failing_lib :: py_lib where
  "failing_lib =
     \<lparr>json_loads = (\<lambda>s. Inl (PyException (ascii ''Expecting value''))),
      float_of_str = (\<lambda>s. Inl (PyException (ascii ''could not convert string to float''))),
      float_of_int = (\<lambda>i. Inr (Float (of_int i))),
      Product_init = (\<lambda>v. Inl (PyException (ascii ''validation error''))),
      ProductRecommendation_init = (\<lambda>p s r. Inl (PyException (ascii ''validation error''))),
      ProductRecommendationsResponse_init =
        (\<lambda>recs rq q. Inl (PyException (ascii ''validation error''))),
      extract_marketplace_name = (\<lambda>u. Inr u),
      list_sort = cpython_list_sort\<rparr>"

definition recommendation_of_triple :: "evaluated_product \<Rightarrow> ProductRecommendation" where
  "recommendation_of_triple t =
     \<lparr>product = fst t, relevance_score = fst (snd t), recommendation_reason = snd (snd t)\<rparr>"

text \<open>When the fallback path is taken: the text of the model has no JSON to extract,
  or the body of the \<open>try\<close> raises on what was extracted.\<close>

definition takes_fallback :: "py_lib \<Rightarrow> ProductRequest \<Rightarrow> pystr \<Rightarrow> bool" where
  "takes_fallback lib request content =
     (case extract_json_from_text content of
        None \<Rightarrow> True
      | Some response_json \<Rightarrow>
          response_json = [] \<or> isl (ranking_try lib request response_json))"

text \<open>
  What stripping is: \<open>r\<close> is \<open>s\<close> without a run of characters of \<open>P\<close> at its start and
  one at its end, and no character of \<open>P\<close> is left at either end of \<open>r\<close>.
\<close>

definition stripped_of :: "(pychar \<Rightarrow> bool) \<Rightarrow> pystr \<Rightarrow> pystr \<Rightarrow> bool" where
  "stripped_of P s r \<longleftrightarrow>
     (\<exists>a b. s = a @ r @ b \<and> list_all P a \<and> list_all P b)
     \<and> (r = [] \<or> (\<not> P (hd r) \<and> \<not> P (last r)))"

text \<open>An answer of the model to the query prompt: a quoted query between whitespace.\<close>

definition example_answer :: pystr where
  "example_answer = [32, 34, 39] @ ascii ''red phone'' @ [39, 34, 10]"

text \<open>Whether the extraction of a task ended with a product, and the product.\<close>

definition extracted_products :: "py_exception + Product option \<Rightarrow> Product list" where
  "extracted_products outcome =
     (case outcome of Inl e \<Rightarrow> [] | Inr None \<Rightarrow> [] | Inr (Some p) \<Rightarrow> [p])"

text \<open>Library calls where pydantic accepts every product and \<open>json.loads\<close> raises.\<close>

definition accepting_lib :: py_lib where
  "accepting_lib = failing_lib\<lparr>Product_init := (\<lambda>v. Inr (example_product (ascii ''a'')))\<rparr>"

text \<open>A browser whose first agent raises, whose second agent ends with a text without
  braces and whose other agents end with an empty \<open>dict\<close>.\<close>

definition example_browser :: browser where
  "example_browser i page_url request =
     (if i = 0 then Inl (PyException (ascii ''timeout''))
      else if i = 1 then Inr (Content_str (ascii ''nothing found''))
      else Inr (Content_other (JObject [])))"

text \<open>Library calls where \<open>json.loads\<close> gives an object that has a score, as an
  integer, and no reason.\<close>

definition scoring_lib :: py_lib where
  "scoring_lib =
     failing_lib\<lparr>json_loads := (\<lambda>s. Inr (JObject [(ascii ''relevance_score'', JInt 4)]))\<rparr>"

text \<open>
  The words of the specification for \<open>_extract_json_from_text\<close>. \<open>s.startswith(pat)\<close>
  and \<open>s.find(pat)\<close> (the index of the first occurrence of \<open>pat\<close> in \<open>s\<close>, \<open>None\<close> for
  Python's \<open>-1\<close>); the opening and the closing fence of a JSON code block; and the
  contents of the first fenced block: what stands between the first opening fence and
  the first closing fence after it.
\<close>

definition startswith :: "pystr \<Rightarrow> pystr \<Rightarrow> bool" where
  "startswith s pat \<longleftrightarrow> take (length pat) s = pat"

fun str_find :: "pystr \<Rightarrow> pystr \<Rightarrow> nat option" where
  "str_find pat [] = (if pat = [] then Some 0 else None)"
| "str_find pat (x # xs) =
     (if startswith (x # xs) pat then Some 0 else map_option Suc (str_find pat xs))"

definition FENCE_OPEN :: pystr where
  "FENCE_OPEN = [96, 96, 96] @ ascii ''json''"

definition FENCE_CLOSE :: pystr where
  "FENCE_CLOSE = [96, 96, 96]"

definition spec_fenced_block :: "pystr \<Rightarrow> pystr option" where
  "spec_fenced_block text =
     (case str_find FENCE_OPEN text of
        None \<Rightarrow> None
      | Some i \<Rightarrow>
          (let after = drop (i + length FENCE_OPEN) text
           in case str_find FENCE_CLOSE after of
                None \<Rightarrow> None
              | Some k \<Rightarrow> Some (take k after)))"

text \<open>
  The substring from the first opening brace to the last closing brace, both
  included, when the text has a closing brace after its first opening brace.
\<close>

definition spec_first_to_last_brace :: "pystr \<Rightarrow> pystr option" where
  "spec_first_to_last_brace text =
     (let from_first = dropWhile (\<lambda>c. c \<noteq> 123) text
      in if 125 \<in> set from_first
         then Some (rev (dropWhile (\<lambda>c. c \<noteq> 125) (rev from_first)))
         else None)"

text \<open>The fenced block first, stripped; the braces when there is no fenced block.\<close>

definition spec_extract_json :: "pystr \<Rightarrow> pystr option" where
  "spec_extract_json text =
     (case spec_fenced_block text of
        Some body \<Rightarrow> Some (py_strip body)
      | None \<Rightarrow> spec_first_to_last_brace text)"

text \<open>Three texts: with a fenced block and braces after it, with braces only, with
  neither (a closing brace, then an opening one).\<close>

definition example_fenced_text :: pystr where
  "example_fenced_text =
     ascii ''see '' @ FENCE_OPEN @ ascii '' {a}  '' @ FENCE_CLOSE @ ascii '' {b}''"

definition example_braced_text :: pystr where
  "example_braced_text = ascii ''so {a} or {b}.''"

definition example_unbraced_text :: pystr where
  "example_unbraced_text = ascii ''} no {''"

section \<open>Properties of the hotel service\<close>

text \<open>
  C4. The hotel-result parsing steps are stubs that always report failure: for every
  agent result, hotel and booking request, \<open>_parse_booking_result\<close> returns a result
  with \<open>success = False\<close>, the hotel's \<open>total_price\<close> as \<open>total_amount\<close>, the
  "not implemented" message and neither a booking id nor a confirmation number; for
  every agent result \<open>_parse_search_results\<close> returns the empty list. So
  \<open>book_hotel\<close> never returns a successful booking, and a hotel search that returns
  has no hotel and \<open>total_found = 0\<close>.
\<close>

theorem parse_stubs_always_fail:
  "parse_booking_result agent_result hotel_info booking_req =
     \<lparr>success = False, booking_id = None, confirmation_number = None,
      total_amount = total_price hotel_info,
      message = MSG_PARSE_BOOKING_NOT_IMPLEMENTED, booking_url = None\<rparr>
   \<and> parse_search_results agent_result' booking_req' = []
   \<and> success (fst (book_hotel svc hotel_info booking_req)) = False
   \<and> booking_id (fst (book_hotel svc hotel_info booking_req)) = None
   \<and> confirmation_number (fst (book_hotel svc hotel_info booking_req)) = None
   \<and> (case fst (search_hotels svc booking_req) of
         Inl e \<Rightarrow> agent_run svc (SearchTask booking_req) = Inl e
       | Inr recs \<Rightarrow> hotels recs = [] \<and> total_found recs = 0
                     \<and> search_params recs = booking_req)"
  by (simp add: parse_booking_result_def parse_search_results_def book_hotel_def
      search_hotels_def init_agent_with_task_def Let_def split: option.split sum.split)

section \<open>Properties of request validation and of the route handlers\<close>

lemma BookingRequest_init_Inr:
  assumes "BookingRequest_init kw = Inr br"
  shows "validated (\<lambda>v. check_out_after_check_in v (required (kw_check_in kw)))
           (required (kw_check_out kw)) = Some (check_out br)
         \<and> required (kw_check_in kw) = Some (check_in br)"
  using assms
  by (auto simp: BookingRequest_init_def Let_def split: option.splits Option.bind_splits)

lemma BookingRequest_init_check_out_error:
  assumes "validated (\<lambda>v. check_out_after_check_in v (required (kw_check_in kw)))
             (required (kw_check_out kw)) = None"
  shows "\<exists>errs. BookingRequest_init kw = Inl (ValidationError errs) \<and> ''check_out'' \<in> set errs"
  using assms
  by (simp add: BookingRequest_init_def Let_def field_error_def split: Option.bind_splits)

text \<open>
  C3. Validation of a \<open>BookingRequest\<close> requires the checkout date to be strictly
  after the check-in date: constructing one from a \<open>check_out\<close> that is not after the
  \<open>check_in\<close> raises a validation error (which names \<open>check_out\<close>), so every
  \<open>BookingRequest\<close> that is constructed has \<open>check_in < check_out\<close>; and
  \<open>start_search\<close> raises an \<open>HTTPException\<close> with status 400 for a request whose
  \<open>check_out\<close> is not after its \<open>check_in\<close>.
\<close>

theorem check_out_must_follow_check_in:
  "(kw_check_in kw = Given ci \<and> kw_check_out kw = Given co \<and> co \<le> ci \<longrightarrow>
      (\<exists>errs. BookingRequest_init kw = Inl (ValidationError errs) \<and> ''check_out'' \<in> set errs))
   \<and> (BookingRequest_init kw = Inr br \<longrightarrow> check_in br < check_out br)
   \<and> (check_out br' \<le> check_in br' \<longrightarrow>
        (\<exists>d. start_search today new_id now br' tasks = Inl (HTTPException 400 d)))"
proof (intro conjI impI)
  assume "kw_check_in kw = Given ci \<and> kw_check_out kw = Given co \<and> co \<le> ci"
  then have "validated (\<lambda>v. check_out_after_check_in v (required (kw_check_in kw)))
               (required (kw_check_out kw)) = None"
    by (simp add: validated_def check_out_after_check_in_def)
  then show "\<exists>errs. BookingRequest_init kw = Inl (ValidationError errs) \<and> ''check_out'' \<in> set errs"
    by (rule BookingRequest_init_check_out_error)
next
  assume "BookingRequest_init kw = Inr br"
  from BookingRequest_init_Inr [OF this] show "check_in br < check_out br"
    by (auto simp: validated_def check_out_after_check_in_def split: option.splits if_splits)
next
  assume "check_out br' \<le> check_in br'"
  then show "\<exists>d. start_search today new_id now br' tasks = Inl (HTTPException 400 d)"
    by (simp add: start_search_def)
qed

lemma example_kwargs_accepted:
  "ci < co \<Longrightarrow> BookingRequest_init (example_kwargs ci co) = Inr (example_request ci co)"
  by (simp add: BookingRequest_init_def example_kwargs_def example_request_def Let_def
      validated_def check_out_after_check_in_def constrain_def opt_ge_def
      max_price_greater_than_min_def field_error_def)

theorem check_out_must_follow_check_in_witness:
  "(\<exists>errs. BookingRequest_init (example_kwargs 12 12) = Inl (ValidationError errs)
            \<and> ''check_out'' \<in> set errs)
   \<and> BookingRequest_init (example_kwargs 10 12) = Inr (example_request 10 12)
   \<and> check_in (example_request 10 12) < check_out (example_request 10 12)
   \<and> check_out (example_request 12 11) \<le> check_in (example_request 12 11)
   \<and> (\<exists>d. start_search 5 (ascii ''id'') 0 (example_request 12 11) Map.empty
            = Inl (HTTPException 400 d))"
proof -
  have a: "kw_check_in (example_kwargs 12 12) = Given 12
           \<and> kw_check_out (example_kwargs 12 12) = Given 12 \<and> (12::int) \<le> 12"
    by (simp add: example_kwargs_def)
  have b: "BookingRequest_init (example_kwargs 10 12) = Inr (example_request 10 12)"
    by (simp add: example_kwargs_accepted)
  have c: "check_out (example_request 12 11) \<le> check_in (example_request 12 11)"
    by (simp add: example_request_def)
  from a b c
    check_out_must_follow_check_in
      [where kw = "example_kwargs 12 12" and ci = 12 and co = 12
         and br' = "example_request 12 11"]
    check_out_must_follow_check_in
      [where kw = "example_kwargs 10 12" and br = "example_request 10 12"]
  show ?thesis by blast
qed

text \<open>
  C8. Cancelling a search task leaves the task in the task store with the status
  "cancelled", which is none of the values \<open>SearchStatus\<close> allows ("searching",
  "completed", "error"): building a \<open>SearchStatus\<close> with it fails validation on
  \<open>status\<close>, and so does a status poll of every stored task whose status is
  "cancelled", in particular the poll that follows a cancellation.
\<close>

theorem cancelled_status_cannot_be_polled:
  "ascii ''cancelled'' \<notin> set SearchStatus_literals
   \<and> (\<exists>errs. SearchStatus_init (ascii ''cancelled'') msg prog = Inl (ValidationError errs)
              \<and> ''status'' \<in> set errs)
   \<and> (tasks task_id = Some task_data \<longrightarrow>
        (\<exists>task_data'. snd (cancel_search task_id tasks) task_id = Some task_data'
            \<and> task_status task_data' = ascii ''cancelled'')
        \<and> (\<exists>errs. get_search_status task_id (snd (cancel_search task_id tasks))
                     = Inl (Invalid (ValidationError errs)) \<and> ''status'' \<in> set errs))
   \<and> (tasks' task_id' = Some cancelled \<and> task_status cancelled = ascii ''cancelled'' \<longrightarrow>
        (\<exists>errs. get_search_status task_id' tasks' = Inl (Invalid (ValidationError errs))
                \<and> ''status'' \<in> set errs))"
proof -
  have lit: "ascii ''cancelled'' \<notin> set SearchStatus_literals"
    by (simp add: SearchStatus_literals_def ascii_def)
  have init: "\<exists>errs. SearchStatus_init (ascii ''cancelled'') m p = Inl (ValidationError errs)
                \<and> ''status'' \<in> set errs" for m p
    using lit by (simp add: SearchStatus_init_def Let_def)
  have poll: "\<exists>errs. get_search_status k ts = Inl (Invalid (ValidationError errs))
                \<and> ''status'' \<in> set errs"
    if "ts k = Some t" "task_status t = ascii ''cancelled''" for ts k t
  proof -
    from init [of "task_message t" "Some (task_progress t)"] obtain errs where
      "SearchStatus_init (ascii ''cancelled'') (task_message t) (Some (task_progress t))
         = Inl (ValidationError errs)" "''status'' \<in> set errs"
      by blast
    with that show ?thesis by (simp add: get_search_status_def)
  qed
  have cancel: "snd (cancel_search task_id tasks) task_id
                  = Some (task_data\<lparr>task_status := ascii ''cancelled'',
                                    task_message := MSG_CANCELLED_BY_USER\<rparr>)"
    if "tasks task_id = Some task_data"
    using that by (simp add: cancel_search_def)
  show ?thesis
  proof (intro conjI impI)
    show "ascii ''cancelled'' \<notin> set SearchStatus_literals" by (rule lit)
    show "\<exists>errs. SearchStatus_init (ascii ''cancelled'') msg prog = Inl (ValidationError errs)
            \<and> ''status'' \<in> set errs" by (rule init)
  next
    assume t: "tasks task_id = Some task_data"
    from cancel [OF t]
    show "\<exists>task_data'. snd (cancel_search task_id tasks) task_id = Some task_data'
            \<and> task_status task_data' = ascii ''cancelled''"
      by simp
    have "task_status (task_data\<lparr>task_status := ascii ''cancelled'',
                                   task_message := MSG_CANCELLED_BY_USER\<rparr>) = ascii ''cancelled''"
      by simp
    from poll [of "snd (cancel_search task_id tasks)" task_id, OF cancel [OF t] this]
    show "\<exists>errs. get_search_status task_id (snd (cancel_search task_id tasks))
                     = Inl (Invalid (ValidationError errs)) \<and> ''status'' \<in> set errs" .
  next
    assume "tasks' task_id' = Some cancelled \<and> task_status cancelled = ascii ''cancelled''"
    then have a: "tasks' task_id' = Some cancelled"
      and b: "task_status cancelled = ascii ''cancelled''"
      by simp_all
    from poll [of tasks' task_id' cancelled, OF a b]
    show "\<exists>errs. get_search_status task_id' tasks' = Inl (Invalid (ValidationError errs))
                \<and> ''status'' \<in> set errs" .
  qed
qed

theorem cancelled_status_cannot_be_polled_witness:
  "[ascii ''t1'' \<mapsto> example_task] (ascii ''t1'') = Some example_task
   \<and> get_search_status (ascii ''t1'') [ascii ''t1'' \<mapsto> example_task]
       = Inr \<lparr>status = ascii ''searching'', status_message = [], progress = Some 30\<rparr>
   \<and> (\<exists>task_data'. snd (cancel_search (ascii ''t1'') [ascii ''t1'' \<mapsto> example_task]) (ascii ''t1'')
          = Some task_data' \<and> task_status task_data' = ascii ''cancelled'')
   \<and> (\<exists>errs. get_search_status (ascii ''t1'')
                 (snd (cancel_search (ascii ''t1'') [ascii ''t1'' \<mapsto> example_task]))
               = Inl (Invalid (ValidationError errs)) \<and> ''status'' \<in> set errs)"
proof -
  have a: "[ascii ''t1'' \<mapsto> example_task] (ascii ''t1'') = Some example_task"
    by simp
  have b: "get_search_status (ascii ''t1'') [ascii ''t1'' \<mapsto> example_task]
       = Inr \<lparr>status = ascii ''searching'', status_message = [], progress = Some 30\<rparr>"
    by (simp add: get_search_status_def example_task_def SearchStatus_init_def
        SearchStatus_literals_def Let_def)
  from a b
    cancelled_status_cannot_be_polled
      [where tasks = "[ascii ''t1'' \<mapsto> example_task]" and task_id = "ascii ''t1''"
         and task_data = example_task]
  show ?thesis by blast
qed

text \<open>
  C9. A call of \<open>execute_booking\<close> that returns a result (does not raise) has set the
  \<open>confirmed\<close> flag of the stored confirmation to \<open>True\<close>, whatever the \<open>success\<close> of
  the result is, and has changed nothing else in the store. With the service of the
  repository the call returns for every stored confirmation, with
  \<open>success = False\<close> and the flag set.
\<close>

theorem execute_booking_marks_confirmed:
  "(execute_booking_with book confirmation_id confirmations = (Inr result, confirmations') \<longrightarrow>
      (\<exists>c. confirmations confirmation_id = Some c
          \<and> book (hotel c) (booking_request c) = Inr result
          \<and> confirmations' = confirmations(confirmation_id \<mapsto> c\<lparr>confirmed := True\<rparr>)
          \<and> confirmed (the (confirmations' confirmation_id))))
   \<and> (confirmations confirmation_id = Some c' \<longrightarrow>
        (\<exists>r. execute_booking svc confirmation_id confirmations
               = (Inr r, confirmations(confirmation_id \<mapsto> c'\<lparr>confirmed := True\<rparr>))
            \<and> success r = False))"
proof (intro conjI impI)
  assume run: "execute_booking_with book confirmation_id confirmations = (Inr result, confirmations')"
  show "\<exists>c. confirmations confirmation_id = Some c
          \<and> book (hotel c) (booking_request c) = Inr result
          \<and> confirmations' = confirmations(confirmation_id \<mapsto> c\<lparr>confirmed := True\<rparr>)
          \<and> confirmed (the (confirmations' confirmation_id))"
  proof (cases "confirmations confirmation_id")
    case None
    with run show ?thesis by (simp add: execute_booking_with_def)
  next
    case (Some c)
    show ?thesis
    proof (cases "book (hotel c) (booking_request c)")
      case (Inl e)
      with run Some show ?thesis by (simp add: execute_booking_with_def)
    next
      case (Inr r)
      with run Some have "r = result"
        and "confirmations' = confirmations(confirmation_id \<mapsto> c\<lparr>confirmed := True\<rparr>)"
        by (simp_all add: execute_booking_with_def)
      with Some Inr show ?thesis by simp
    qed
  qed
next
  assume stored: "confirmations confirmation_id = Some c'"
  have "success (fst (book_hotel svc h r)) = False" for h r
    by (simp add: book_hotel_def parse_booking_result_def Let_def
        split: option.split sum.split)
  with stored show "\<exists>r. execute_booking svc confirmation_id confirmations
               = (Inr r, confirmations(confirmation_id \<mapsto> c'\<lparr>confirmed := True\<rparr>))
            \<and> success r = False"
    by (simp add: execute_booking_def execute_booking_with_def)
qed

theorem execute_booking_marks_confirmed_witness:
  "execute_booking_with succeeding_book (ascii ''c1'') [ascii ''c1'' \<mapsto> example_confirmation]
     = (Inr \<lparr>success = True, booking_id = Some (ascii ''b1''), confirmation_number = None,
             total_amount = 9000, message = [], booking_url = None\<rparr>,
        [ascii ''c1'' \<mapsto> example_confirmation\<lparr>confirmed := True\<rparr>])
   \<and> [ascii ''c1'' \<mapsto> example_confirmation] (ascii ''c1'') = Some example_confirmation
   \<and> (\<exists>r. execute_booking fresh_service (ascii ''c1'') [ascii ''c1'' \<mapsto> example_confirmation]
            = (Inr r, [ascii ''c1'' \<mapsto> example_confirmation\<lparr>confirmed := True\<rparr>])
          \<and> success r = False)"
proof -
  have a: "execute_booking_with succeeding_book (ascii ''c1'')
             [ascii ''c1'' \<mapsto> example_confirmation]
     = (Inr \<lparr>success = True, booking_id = Some (ascii ''b1''), confirmation_number = None,
             total_amount = 9000, message = [], booking_url = None\<rparr>,
        [ascii ''c1'' \<mapsto> example_confirmation\<lparr>confirmed := True\<rparr>])"
    by (simp add: execute_booking_with_def succeeding_book_def example_confirmation_def
        example_hotel_def)
  have b: "[ascii ''c1'' \<mapsto> example_confirmation] (ascii ''c1'') = Some example_confirmation"
    by simp
  have "\<exists>r. execute_booking fresh_service (ascii ''c1'') [ascii ''c1'' \<mapsto> example_confirmation]
            = (Inr r, [ascii ''c1'' \<mapsto> example_confirmation\<lparr>confirmed := True\<rparr>])
          \<and> success r = False"
    using b
      execute_booking_marks_confirmed
        [where confirmations = "[ascii ''c1'' \<mapsto> example_confirmation]"
           and confirmation_id = "ascii ''c1''" and c' = example_confirmation
           and svc = fresh_service and book = succeeding_book
           and result = "\<lparr>success = True, booking_id = Some (ascii ''b1''),
                          confirmation_number = None, total_amount = 9000, message = [],
                          booking_url = None\<rparr>"
           and confirmations' = "[ascii ''c1'' \<mapsto> example_confirmation\<lparr>confirmed := True\<rparr>]"]
    by (simp only: fun_upd_upd)
  with a b show ?thesis by blast
qed

section \<open>Properties of the sort\<close>

text \<open>The comparisons of floats that are not NaN are those of their values.\<close>

lemma float_ge_value:
  "a \<noteq> NaN \<Longrightarrow> b \<noteq> NaN \<Longrightarrow> float_ge a b \<longleftrightarrow> float_value b \<le> float_value a"
  by (cases a; cases b) simp_all

lemma float_lt_value:
  "a \<noteq> NaN \<Longrightarrow> b \<noteq> NaN \<Longrightarrow> float_lt a b \<longleftrightarrow> float_value a < float_value b"
  by (cases a; cases b) simp_all

text \<open>Whatever the comparison, the sort rearranges the list.\<close>

lemma mset_binarysort: "mset (binarysort lt a rest) = mset a + mset rest"
proof (induction rest arbitrary: a)
  case Nil
  show ?case by simp
next
  case (Cons x rest)
  have "mset (take k a @ x # drop k a) = add_mset x (mset a)" for k
    by (metis append_take_drop_id mset.simps(2) mset_append union_mset_add_mset_right)
  then show ?case
    by (simp add: Cons.IH Let_def)
qed

lemma mset_listsort: "mset (listsort lt xs) = mset xs"
proof -
  have "mset (take n xs) + mset (drop n xs) = mset xs" for n
    by (metis append_take_drop_id mset_append)
  then show ?thesis
    by (simp add: listsort_def mset_binarysort Let_def split: prod.split)
qed

lemma mset_cpython_list_sort: "mset (cpython_list_sort key reverse xs) = mset xs"
  by (simp add: cpython_list_sort_def Let_def mset_listsort)

text \<open>
  When the comparison is that of a real-valued key \<open>v\<close> on the elements of the list,
  the binary search gives the place after the elements that are not greater.
\<close>

lemma bisect_place:
  assumes "sorted (map v a)"
    and "\<And>y. y \<in> set a \<Longrightarrow> lt x y \<longleftrightarrow> v x < v y"
    and "l \<le> r" "r \<le> length a"
    and "\<forall>i<l. v (a ! i) \<le> v x"
    and "\<forall>i. r \<le> i \<and> i < length a \<longrightarrow> v x < v (a ! i)"
  shows "bisect lt x a l r \<le> length a
         \<and> (\<forall>i<bisect lt x a l r. v (a ! i) \<le> v x)
         \<and> (\<forall>i. bisect lt x a l r \<le> i \<and> i < length a \<longrightarrow> v x < v (a ! i))"
  using assms
proof (induction lt x a l r rule: bisect.induct)
  case (1 lt pivot a l r)
  show ?case
  proof (cases "l < r")
    case False
    then have "bisect lt pivot a l r = l"
      by (simp add: bisect.simps [of lt pivot a l r])
    moreover from False "1.prems" have "l = r" by simp
    ultimately show ?thesis
      using "1.prems" by simp
  next
    case True
    define p where "p = l + (r - l) div 2"
    from True have p: "l \<le> p" "p < r"
      by (simp_all add: p_def)
    with "1.prems"(4) have pa: "p < length a" by simp
    have mono: "v (a ! i) \<le> v (a ! j)" if "i \<le> j" "j < length a" for i j
      using "1.prems"(1) that by (simp add: sorted_iff_nth_mono)
    show ?thesis
    proof (cases "lt pivot (a ! p)")
      case lt: True
      then have less: "v pivot < v (a ! p)"
        using "1.prems"(2) [of "a ! p"] pa by simp
      have "\<forall>i. p \<le> i \<and> i < length a \<longrightarrow> v pivot < v (a ! i)"
        using less mono by (meson less_le_trans)
      from "1.IH"(1) [OF True p_def lt "1.prems"(1,2) p(1) _ "1.prems"(5) this] pa
      have "bisect lt pivot a l p \<le> length a
         \<and> (\<forall>i<bisect lt pivot a l p. v (a ! i) \<le> v pivot)
         \<and> (\<forall>i. bisect lt pivot a l p \<le> i \<and> i < length a \<longrightarrow> v pivot < v (a ! i))"
        by simp
      moreover have "bisect lt pivot a l r = bisect lt pivot a l p"
        using True lt by (simp add: bisect.simps [of lt pivot a l r] p_def Let_def)
      ultimately show ?thesis by simp
    next
      case nlt: False
      then have le: "v (a ! p) \<le> v pivot"
        using "1.prems"(2) [of "a ! p"] pa by simp
      have "\<forall>i<p + 1. v (a ! i) \<le> v pivot"
        using le mono pa by (metis Suc_eq_plus1 less_Suc_eq_le order_trans)
      from "1.IH"(2) [OF True p_def nlt "1.prems"(1,2) _ "1.prems"(4) this "1.prems"(6)] p
      have "bisect lt pivot a (p + 1) r \<le> length a
         \<and> (\<forall>i<bisect lt pivot a (p + 1) r. v (a ! i) \<le> v pivot)
         \<and> (\<forall>i. bisect lt pivot a (p + 1) r \<le> i \<and> i < length a \<longrightarrow> v pivot < v (a ! i))"
        by simp
      moreover have "bisect lt pivot a l r = bisect lt pivot a (p + 1) r"
        using True nlt by (simp add: bisect.simps [of lt pivot a l r] p_def Let_def)
      ultimately show ?thesis by simp
    qed
  qed
qed

text \<open>Inserting at that place keeps the list the stable sort of what was inserted.\<close>

lemma insert_at_place:
  fixes v :: "'a \<Rightarrow> real"
  assumes a: "a = sort_key v ps"
    and k: "k \<le> length a" "\<forall>i<k. v (a ! i) \<le> v x"
      "\<forall>i. k \<le> i \<and> i < length a \<longrightarrow> v x < v (a ! i)"
  shows "take k a @ x # drop k a = sort_key v (ps @ [x])"
proof (rule properties_for_sort_key [symmetric])
  have before: "v y \<le> v x" if "y \<in> set (take k a)" for y
  proof -
    from that obtain i where "i < length (take k a)" "take k a ! i = y"
      by (auto simp: in_set_conv_nth)
    with k(2) show ?thesis by auto
  qed
  have after: "v x < v y" if "y \<in> set (drop k a)" for y
  proof -
    from that obtain i where "i < length (drop k a)" "drop k a ! i = y"
      by (auto simp: in_set_conv_nth)
    with k(1,3) show ?thesis by auto
  qed
  have sorted_a: "sorted_wrt (\<lambda>x y. v x \<le> v y) a"
    using sorted_sort_key [of v ps] by (simp add: a sorted_wrt_map)
  have ms: "mset a = mset ps"
    by (simp add: a)
  have split: "a = take k a @ drop k a"
    by simp
  have "mset (take k a) + mset (drop k a) = mset a"
    by (metis append_take_drop_id mset_append)
  then show "mset (take k a @ x # drop k a) = mset (ps @ [x])"
    by (simp add: ms [symmetric])
  show "sorted (map v (take k a @ x # drop k a))"
  proof -
    have "sorted_wrt (\<lambda>x y. v x \<le> v y) (take k a)" "sorted_wrt (\<lambda>x y. v x \<le> v y) (drop k a)"
      using sorted_a by (simp_all add: sorted_wrt_take sorted_wrt_drop)
    moreover have "v y \<le> v z" if "y \<in> set (take k a)" "z \<in> set (x # drop k a)" for y z
    proof (cases "z = x")
      case True
      with before [OF that(1)] show ?thesis by simp
    next
      case False
      with that(2) have "z \<in> set (drop k a)" by simp
      from before [OF that(1)] after [OF this] show ?thesis by simp
    qed
    then have "\<forall>y\<in>set (take k a). \<forall>z\<in>set (x # drop k a). v y \<le> v z"
      by blast
    moreover have "\<forall>z\<in>set (drop k a). v x \<le> v z"
      using after by (simp add: less_eq_real_def)
    ultimately have "sorted_wrt (\<lambda>x y. v x \<le> v y) (take k a @ x # drop k a)"
      by (simp add: sorted_wrt_append)
    then show ?thesis
      by (simp only: sorted_wrt_map)
  qed
  fix c assume "c \<in> set (take k a @ x # drop k a)"
  have stable: "filter (\<lambda>y. v c = v y) ps = filter (\<lambda>y. v c = v y) a"
    using sort_key_stable [of v "v c" ps] by (simp add: a eq_commute)
  have "filter (\<lambda>y. v c = v y) a
          = filter (\<lambda>y. v c = v y) (take k a) @ filter (\<lambda>y. v c = v y) (drop k a)"
    by (metis append_take_drop_id filter_append)
  moreover have "filter (\<lambda>y. v c = v y) (drop k a) = []" if eq: "v c = v x"
  proof -
    have "v c \<noteq> v y" if "y \<in> set (drop k a)" for y
      using after [OF that] eq by simp
    then show ?thesis
      by (simp add: filter_empty_conv)
  qed
  ultimately show "filter (\<lambda>y. v c = v y) (take k a @ x # drop k a)
          = filter (\<lambda>y. v c = v y) (ps @ [x])"
    by (simp add: stable)
qed

lemma binarysort_sorts:
  fixes v :: "'a \<Rightarrow> real"
  assumes "a = sort_key v ps"
    and "\<And>x y. x \<in> set (ps @ rest) \<Longrightarrow> y \<in> set (ps @ rest) \<Longrightarrow> lt x y \<longleftrightarrow> v x < v y"
  shows "binarysort lt a rest = sort_key v (ps @ rest)"
  using assms
proof (induction rest arbitrary: a ps)
  case Nil
  then show ?case by simp
next
  case (Cons x rest)
  define k where "k = bisect lt x a 0 (length a)"
  have "sorted (map v a)"
    by (simp add: Cons.prems(1))
  moreover have "lt x y \<longleftrightarrow> v x < v y" if "y \<in> set a" for y
    using Cons.prems(2) [of x y] that by (simp add: Cons.prems(1))
  ultimately have "k \<le> length a \<and> (\<forall>i<k. v (a ! i) \<le> v x)
         \<and> (\<forall>i. k \<le> i \<and> i < length a \<longrightarrow> v x < v (a ! i))"
    unfolding k_def by (intro bisect_place) simp_all
  then have "take k a @ x # drop k a = sort_key v (ps @ [x])"
    using insert_at_place [OF Cons.prems(1)] by blast
  moreover have "lt y z \<longleftrightarrow> v y < v z"
    if "y \<in> set ((ps @ [x]) @ rest)" "z \<in> set ((ps @ [x]) @ rest)" for y z
    using Cons.prems(2) [of y z] that by simp
  ultimately have "binarysort lt (take k a @ x # drop k a) rest = sort_key v ((ps @ [x]) @ rest)"
    by (rule Cons.IH)
  then show ?case
    by (simp add: k_def Let_def)
qed

text \<open>The run the list begins with.\<close>

lemma run_ascending_sorted:
  fixes v :: "'a \<Rightarrow> real"
  assumes "\<And>x y. x \<in> set (prev # xs) \<Longrightarrow> y \<in> set (prev # xs) \<Longrightarrow> lt x y \<longleftrightarrow> v x < v y"
  shows "sorted_wrt (\<lambda>x y. v x \<le> v y) (prev # take (run_ascending lt prev xs) xs)"
  using assms
proof (induction xs arbitrary: prev)
  case Nil
  show ?case by simp
next
  case (Cons x xs)
  have tr: "transp (\<lambda>x y. v x \<le> v y)"
    by (auto simp: transp_def)
  show ?case
  proof (cases "lt x prev")
    case True
    then show ?thesis by simp
  next
    case False
    then have "v prev \<le> v x"
      using Cons.prems [of x prev] by simp
    moreover have "sorted_wrt (\<lambda>x y. v x \<le> v y) (x # take (run_ascending lt x xs) xs)"
    proof (rule Cons.IH)
      fix y z assume "y \<in> set (x # xs)" "z \<in> set (x # xs)"
      then show "lt y z \<longleftrightarrow> v y < v z"
        using Cons.prems [of y z] by simp
    qed
    ultimately show ?thesis
      using False by (simp only: run_ascending.simps if_False take_Suc_Cons sorted_wrt2 [OF tr])
  qed
qed

lemma run_descending_sorted:
  fixes v :: "'a \<Rightarrow> real"
  assumes "\<And>x y. x \<in> set (prev # xs) \<Longrightarrow> y \<in> set (prev # xs) \<Longrightarrow> lt x y \<longleftrightarrow> v x < v y"
  shows "sorted_wrt (\<lambda>x y. v y < v x) (prev # take (run_descending lt prev xs) xs)"
  using assms
proof (induction xs arbitrary: prev)
  case Nil
  show ?case by simp
next
  case (Cons x xs)
  have tr: "transp (\<lambda>x y. v y < v x)"
    by (auto simp: transp_def)
  show ?case
  proof (cases "lt x prev")
    case False
    then show ?thesis by simp
  next
    case True
    then have "v x < v prev"
      using Cons.prems [of x prev] by simp
    moreover have "sorted_wrt (\<lambda>x y. v y < v x) (x # take (run_descending lt x xs) xs)"
    proof (rule Cons.IH)
      fix y z assume "y \<in> set (x # xs)" "z \<in> set (x # xs)"
      then show "lt y z \<longleftrightarrow> v y < v z"
        using Cons.prems [of y z] by simp
    qed
    ultimately show ?thesis
      using True by (simp only: run_descending.simps if_True take_Suc_Cons sorted_wrt2 [OF tr])
  qed
qed

lemma strictly_descending_rev:
  fixes v :: "'a \<Rightarrow> real"
  assumes "sorted_wrt (\<lambda>x y. v y < v x) xs"
  shows "rev xs = sort_key v xs"
proof (rule properties_for_sort_key [symmetric])
  show "mset (rev xs) = mset xs" by simp
  have "sorted_wrt (\<lambda>x y. v y \<le> v x) xs"
    using assms by (rule sorted_wrt_mono_rel [rotated]) simp
  then show "sorted (map v (rev xs))"
    by (simp add: sorted_wrt_map sorted_wrt_rev)
  fix c
  have "length (filter (\<lambda>y. v c = v y) xs) \<le> 1"
    using assms
  proof (induction xs)
    case Nil
    show ?case by simp
  next
    case (Cons x xs)
    have "filter (\<lambda>y. v c = v y) xs = []" if eq: "v c = v x"
    proof -
      have "v c \<noteq> v y" if "y \<in> set xs" for y
        using Cons.prems that eq by auto
      then show ?thesis
        by (simp add: filter_empty_conv)
    qed
    with Cons show ?case by simp
  qed
  then have "rev (filter (\<lambda>y. v c = v y) xs) = filter (\<lambda>y. v c = v y) xs"
    by (cases "filter (\<lambda>y. v c = v y) xs") (auto simp: le_Suc_eq)
  then show "filter (\<lambda>y. v c = v y) (rev xs) = filter (\<lambda>y. v c = v y) xs"
    by (simp add: rev_filter)
qed

lemma count_run_sorts:
  fixes v :: "'a \<Rightarrow> real"
  assumes "\<And>x y. x \<in> set xs \<Longrightarrow> y \<in> set xs \<Longrightarrow> lt x y \<longleftrightarrow> v x < v y"
    and "count_run lt xs = (descending, n)"
  shows "(if descending then rev (take n xs) else take n xs) = sort_key v (take n xs)"
proof -
  consider "xs = []" | x where "xs = [x]" | a b rest where "xs = a # b # rest"
    by (cases xs rule: list.exhaust [case_product list.exhaust])
      (metis list.exhaust)+
  then show ?thesis
  proof cases
    case 1
    with assms(2) show ?thesis by auto
  next
    case 2
    with assms(2) show ?thesis by auto
  next
    case 3
    note xs = 3
    have cmp: "lt x y \<longleftrightarrow> v x < v y" if "x \<in> set (b # rest)" "y \<in> set (b # rest)" for x y
      using assms(1) [of x y] that by (auto simp: xs)
    show ?thesis
    proof (cases "lt b a")
      case True
      with assms(2) have d: "descending" and n: "n = Suc (Suc (run_descending lt b rest))"
        by (simp_all add: xs)
      have "v b < v a"
        using True assms(1) [of b a] by (simp add: xs)
      moreover have "sorted_wrt (\<lambda>x y. v y < v x) (b # take (run_descending lt b rest) rest)"
        using cmp by (rule run_descending_sorted)
      moreover have tr: "transp (\<lambda>x y. v y < v x)"
        by (auto simp: transp_def)
      ultimately have "sorted_wrt (\<lambda>x y. v y < v x)
                         (a # b # take (run_descending lt b rest) rest)"
        by (simp only: sorted_wrt2 [OF tr])
      then have "sorted_wrt (\<lambda>x y. v y < v x) (take n xs)"
        by (simp only: n xs take_Suc_Cons)
      with d show ?thesis
        by (simp add: strictly_descending_rev)
    next
      case False
      with assms(2) have d: "\<not> descending" and n: "n = Suc (Suc (run_ascending lt b rest))"
        by (simp_all add: xs)
      have "v a \<le> v b"
        using False assms(1) [of b a] by (simp add: xs)
      moreover have "sorted_wrt (\<lambda>x y. v x \<le> v y) (b # take (run_ascending lt b rest) rest)"
        using cmp by (rule run_ascending_sorted)
      moreover have tr: "transp (\<lambda>x y. v x \<le> v y)"
        by (auto simp: transp_def)
      ultimately have "sorted_wrt (\<lambda>x y. v x \<le> v y)
                         (a # b # take (run_ascending lt b rest) rest)"
        by (simp only: sorted_wrt2 [OF tr])
      then have "sorted_wrt (\<lambda>x y. v x \<le> v y) (take n xs)"
        by (simp only: n xs take_Suc_Cons)
      then have "sorted (map v (take n xs))"
        by (simp add: sorted_wrt_map)
      with d show ?thesis
        by (simp add: sort_key_id_if_sorted)
    qed
  qed
qed

lemma listsort_sorts:
  fixes v :: "'a \<Rightarrow> real"
  assumes "\<And>x y. x \<in> set xs \<Longrightarrow> y \<in> set xs \<Longrightarrow> lt x y \<longleftrightarrow> v x < v y"
  shows "listsort lt xs = sort_key v xs"
proof -
  obtain descending n where c: "count_run lt xs = (descending, n)"
    by (cases "count_run lt xs")
  have "binarysort lt (if descending then rev (take n xs) else take n xs) (drop n xs)
          = sort_key v (take n xs @ drop n xs)"
  proof (rule binarysort_sorts)
    show "(if descending then rev (take n xs) else take n xs) = sort_key v (take n xs)"
      using assms c by (rule count_run_sorts)
    show "lt x y \<longleftrightarrow> v x < v y"
      if "x \<in> set (take n xs @ drop n xs)" "y \<in> set (take n xs @ drop n xs)" for x y
      using assms [of x y] that by simp
  qed
  then show ?thesis
    by (simp add: listsort_def c Let_def)
qed

lemma rev_sort_key_rev:
  fixes v :: "'a \<Rightarrow> real"
  shows "rev (sort_key v (rev xs)) = sort_key (\<lambda>x. - v x) xs"
proof (rule properties_for_sort_key [symmetric])
  show "mset (rev (sort_key v (rev xs))) = mset xs"
    by simp
  have "sorted (map v (sort_key v (rev xs)))"
    by (rule sorted_sort_key)
  then show "sorted (map (\<lambda>x. - v x) (rev (sort_key v (rev xs))))"
    by (simp add: sorted_wrt_map sorted_wrt_rev)
  fix c
  have "filter (\<lambda>y. v y = v c) (sort_key v (rev xs)) = filter (\<lambda>y. v y = v c) (rev xs)"
    by (rule sort_key_stable)
  then have "rev (filter (\<lambda>y. v y = v c) (sort_key v (rev xs)))
               = filter (\<lambda>y. v y = v c) xs"
    by (simp flip: rev_filter)
  then show "filter (\<lambda>y. - v c = - v y) (rev (sort_key v (rev xs)))
               = filter (\<lambda>y. - v c = - v y) xs"
    by (simp add: rev_filter eq_commute)
qed

text \<open>The sort of CPython for short lists keeps the promise of \<open>list.sort\<close>, on a list of
  any length.\<close>

lemma cpython_list_sort_stable:
  assumes "\<forall>x\<in>set xs. key x \<noteq> NaN"
  shows "cpython_list_sort key True xs = sort_key (\<lambda>x. - float_value (key x)) xs"
proof -
  have "listsort (\<lambda>a b. float_lt (key a) (key b)) (rev xs)
          = sort_key (\<lambda>x. float_value (key x)) (rev xs)"
  proof (rule listsort_sorts)
    fix x y assume "x \<in> set (rev xs)" "y \<in> set (rev xs)"
    with assms show "float_lt (key x) (key y) \<longleftrightarrow> float_value (key x) < float_value (key y)"
      by (simp add: float_lt_value)
  qed
  then show ?thesis
    by (simp add: cpython_list_sort_def rev_sort_key_rev)
qed

lemma cpython_list_sort_contract: "list_sort_contract cpython_list_sort key xs"
  by (simp add: list_sort_contract_def mset_cpython_list_sort cpython_list_sort_stable)

section \<open>Properties of the fallback recommendations\<close>

lemma generate_recommendations_fallback:
  assumes "llm_reply l (llm_calls l)
             (GenerateRecommendationsPrompt request eps (max_results request)) = Inr content"
    and "takes_fallback lib request content"
  shows "generate_recommendations lib l request eps =
           (Inr (fst (fallback_recommendations lib request eps)),
            snd (fallback_recommendations lib request eps),
            l\<lparr>llm_calls := llm_calls l + 1\<rparr>)"
  using assms
  by (auto simp: generate_recommendations_def takes_fallback_def ainvoke_def Let_def
      split: option.splits sum.splits prod.splits)

lemma generate_recommendations_no_fallback:
  assumes "llm_reply l (llm_calls l)
             (GenerateRecommendationsPrompt request eps (max_results request)) = Inr content"
    and "\<not> takes_fallback lib request content"
  shows "fst (snd (generate_recommendations lib l request eps)) = eps"
  using assms
  by (auto simp: generate_recommendations_def takes_fallback_def ainvoke_def Let_def
      split: option.splits sum.splits prod.splits)

lemma fallback_recommendations_eq:
  "fallback_recommendations lib request eps =
     (\<lparr>recommendations =
          map recommendation_of_triple
            (py_slice_to (max_results request) (list_sort lib (\<lambda>x. fst (snd x)) True eps)),
       query_details = request, additional_questions = Some []\<rparr>,
      list_sort lib (\<lambda>x. fst (snd x)) True eps)"
proof -
  have "(\<lambda>(p, score, reason). \<lparr>product = p, relevance_score = score,
           recommendation_reason = reason\<rparr>) = recommendation_of_triple"
    by (auto simp: recommendation_of_triple_def fun_eq_iff)
  then show ?thesis
    by (simp add: fallback_recommendations_def Let_def)
qed

text \<open>The stable sort by the negated keys: descending, elements of equal key in their
  former order.\<close>

lemma stable_sort_descending:
  assumes "\<forall>x\<in>set xs. key x \<noteq> NaN"
  shows "sorted_wrt (\<lambda>a b. float_ge (key a) (key b)) (sort_key (\<lambda>x. - float_value (key x)) xs)"
proof -
  let ?ys = "sort_key (\<lambda>x. - float_value (key x)) xs"
  have "sorted (map (\<lambda>x. - float_value (key x)) ?ys)"
    by (rule sorted_sort_key)
  then have "sorted_wrt (\<lambda>a b. float_value (key b) \<le> float_value (key a)) ?ys"
    by (simp add: sorted_wrt_map)
  then show ?thesis
  proof (rule sorted_wrt_mono_rel [rotated])
    fix a b
    assume "a \<in> set ?ys" "b \<in> set ?ys" "float_value (key b) \<le> float_value (key a)"
    with assms show "float_ge (key a) (key b)"
      by (simp add: float_ge_value)
  qed
qed

lemma stable_sort_keeps_order:
  assumes "\<forall>x\<in>set xs. key x \<noteq> NaN"
  shows "filter (\<lambda>x. key x = k) (sort_key (\<lambda>x. - float_value (key x)) xs)
           = filter (\<lambda>x. key x = k) xs"
proof (cases k)
  case NaN
  have "filter (\<lambda>x. key x = NaN) ys = []" if "set ys = set xs" for ys
    using that assms by (auto simp: filter_empty_conv)
  from this [of xs] this [of "sort_key (\<lambda>x. - float_value (key x)) xs"] NaN
  show ?thesis by simp
next
  case (Float r)
  have "filter (\<lambda>x. key x = k) ys = filter (\<lambda>x. - float_value (key x) = - r) ys"
    if "set ys = set xs" for ys
  proof (rule filter_cong [OF refl])
    fix x assume "x \<in> set ys"
    with that assms have "key x \<noteq> NaN" by simp
    then show "(key x = k) = (- float_value (key x) = - r)"
      unfolding Float by (cases "key x") simp_all
  qed
  from this [of xs] this [of "sort_key (\<lambda>x. - float_value (key x)) xs"]
    sort_key_stable [of "\<lambda>x. - float_value (key x)" "- r" xs]
  show ?thesis by simp
qed

lemma example_no_json: "extract_json_from_text (ascii ''no json'') = None"
  by code_simp

lemma example_takes_fallback: "takes_fallback lib request (ascii ''no json'')"
  by (simp add: takes_fallback_def example_no_json)

text \<open>The sort of CPython on the two lists of the examples.\<close>

lemma bisect_step:
  "l < r \<Longrightarrow> bisect lt pivot a l r =
     (if lt pivot (a ! (l + (r - l) div 2)) then bisect lt pivot a l (l + (r - l) div 2)
      else bisect lt pivot a (Suc (l + (r - l) div 2)) r)"
  "\<not> l < r \<Longrightarrow> bisect lt pivot a l r = l"
  by (subst bisect.simps, simp add: Let_def)+

lemma example_sorted:
  "list_sort failing_lib (\<lambda>x. fst (snd x)) True example_evaluated =
     [(example_product (ascii ''b''), Float 3, ascii ''high''),
      (example_product (ascii ''c''), Float 2, ascii ''mid''),
      (example_product (ascii ''a''), Float 1, ascii ''low'')]"
  by (simp add: failing_lib_def cpython_list_sort_def listsort_def example_evaluated_def
      bisect_step Let_def)

lemma failing_lib_contract: "list_sort_contract (list_sort failing_lib) key eps"
  by (simp add: failing_lib_def cpython_list_sort_contract)

lemma example_sorted_nan:
  "list_sort failing_lib (\<lambda>x. fst (snd x)) True example_evaluated_nan = example_evaluated_nan"
  by (simp add: failing_lib_def cpython_list_sort_def listsort_def example_evaluated_nan_def
      bisect_step Let_def)

text \<open>
  C2, as the code has it. When the model answers and the fallback path is taken (no
  JSON could be extracted from the answer, or the body of the \<open>try\<close> raised),
  \<open>generate_recommendations\<close> returns the fallback response: the slice
  \<open>[:max_results]\<close> of the list as the one call of \<open>list.sort\<close> leaves it, each triple
  mapped to a recommendation with its product, score and reason, \<open>query_details\<close> the
  request and \<open>additional_questions\<close> the empty list. With \<open>list.sort\<close> keeping its
  promise (\<open>list_sort_contract\<close>), the sorted list holds the triples of the list, each
  as often, and when no score is NaN it is in descending order of the scores, triples
  of equal score in their former order. The slice is the first
  \<open>max_results\<close> triples when \<open>max_results\<close> is not negative, and all but the last
  \<open>- max_results\<close> triples when it is negative.
\<close>

theorem fallback_is_sort_then_slice:
  assumes "llm_reply l (llm_calls l)
             (GenerateRecommendationsPrompt request eps (max_results request)) = Inr content"
    and "takes_fallback lib request content"
    and "list_sort_contract (list_sort lib) (\<lambda>x. fst (snd x)) eps"
  shows "\<exists>resp ordered.
           fst (generate_recommendations lib l request eps) = Inr resp
         \<and> ordered = list_sort lib (\<lambda>x. fst (snd x)) True eps
         \<and> mset ordered = mset eps
         \<and> ((\<forall>x\<in>set eps. fst (snd x) \<noteq> NaN) \<longrightarrow>
              sorted_wrt (\<lambda>a b. float_ge (fst (snd a)) (fst (snd b))) ordered
              \<and> (\<forall>k. filter (\<lambda>x. fst (snd x) = k) ordered
                       = filter (\<lambda>x. fst (snd x) = k) eps))
         \<and> recommendations resp =
             map recommendation_of_triple
               (if 0 \<le> max_results request then take (nat (max_results request)) ordered
                else take (length ordered - nat (- max_results request)) ordered)
         \<and> query_details resp = request
         \<and> additional_questions resp = Some []"
proof -
  let ?ordered = "list_sort lib (\<lambda>x. fst (snd x)) True eps"
  let ?resp = "fst (fallback_recommendations lib request eps)"
  have "fst (generate_recommendations lib l request eps) = Inr ?resp"
    using generate_recommendations_fallback [OF assms(1,2)] by simp
  moreover have "mset ?ordered = mset eps"
    using assms(3) by (simp add: list_sort_contract_def)
  moreover have "sorted_wrt (\<lambda>a b. float_ge (fst (snd a)) (fst (snd b))) ?ordered
      \<and> (\<forall>k. filter (\<lambda>x. fst (snd x) = k) ?ordered = filter (\<lambda>x. fst (snd x) = k) eps)"
    if n: "\<forall>x\<in>set eps. fst (snd x) \<noteq> NaN"
  proof -
    from assms(3) n
    have "?ordered = sort_key (\<lambda>x. - float_value (fst (snd x))) eps"
      by (simp add: list_sort_contract_def)
    with stable_sort_descending [of eps "\<lambda>x. fst (snd x)", OF n]
      stable_sort_keeps_order [of eps "\<lambda>x. fst (snd x)", OF n]
    show ?thesis by simp
  qed
  moreover have "recommendations ?resp =
             map recommendation_of_triple
               (if 0 \<le> max_results request then take (nat (max_results request)) ?ordered
                else take (length ?ordered - nat (- max_results request)) ?ordered)"
    by (simp add: fallback_recommendations_eq py_slice_to_def)
  moreover have "query_details ?resp = request" "additional_questions ?resp = Some []"
    by (simp_all add: fallback_recommendations_eq)
  ultimately show ?thesis by blast
qed

theorem fallback_is_sort_then_slice_witness:
  "llm_reply (constant_llm (ascii ''no json'')) (llm_calls (constant_llm (ascii ''no json'')))
     (GenerateRecommendationsPrompt (example_product_request 2) example_evaluated
        (max_results (example_product_request 2))) = Inr (ascii ''no json'')
   \<and> takes_fallback failing_lib (example_product_request 2) (ascii ''no json'')
   \<and> (\<exists>resp ordered.
         fst (generate_recommendations failing_lib (constant_llm (ascii ''no json''))
                (example_product_request 2) example_evaluated) = Inr resp
       \<and> ordered = [(example_product (ascii ''b''), Float 3, ascii ''high''),
                    (example_product (ascii ''c''), Float 2, ascii ''mid''),
                    (example_product (ascii ''a''), Float 1, ascii ''low'')]
       \<and> mset ordered = mset example_evaluated
       \<and> sorted_wrt (\<lambda>a b. float_ge (fst (snd a)) (fst (snd b))) ordered
       \<and> recommendations resp = map recommendation_of_triple (take 2 ordered)
       \<and> query_details resp = example_product_request 2
       \<and> additional_questions resp = Some [])"
proof -
  have a: "llm_reply (constant_llm (ascii ''no json''))
             (llm_calls (constant_llm (ascii ''no json'')))
             (GenerateRecommendationsPrompt (example_product_request 2) example_evaluated
                (max_results (example_product_request 2))) = Inr (ascii ''no json'')"
    by (simp add: constant_llm_def)
  have b: "takes_fallback failing_lib (example_product_request 2) (ascii ''no json'')"
    by (rule example_takes_fallback)
  have c: "max_results (example_product_request 2) = 2"
    by (simp add: example_product_request_def)
  have n: "\<forall>x\<in>set example_evaluated. fst (snd x) \<noteq> NaN"
    by (simp add: example_evaluated_def)
  from fallback_is_sort_then_slice [OF a b failing_lib_contract] obtain resp ordered where
    "fst (generate_recommendations failing_lib (constant_llm (ascii ''no json''))
                (example_product_request 2) example_evaluated) = Inr resp"
    "ordered = [(example_product (ascii ''b''), Float 3, ascii ''high''),
                (example_product (ascii ''c''), Float 2, ascii ''mid''),
                (example_product (ascii ''a''), Float 1, ascii ''low'')]"
    "mset ordered = mset example_evaluated"
    "sorted_wrt (\<lambda>a b. float_ge (fst (snd a)) (fst (snd b))) ordered"
    "recommendations resp = map recommendation_of_triple (take 2 ordered)"
    "query_details resp = example_product_request 2"
    "additional_questions resp = Some []"
    unfolding c example_sorted using n by auto
  with a b show ?thesis by blast
qed

text \<open>
  The claim as it is written fails in two ways. "Exactly the first \<open>max_results\<close>
  triples" fails for a request with \<open>max_results = -1\<close>: of three evaluated products
  the fallback returns two recommendations, the slice \<open>[:-1]\<close>, and not none. "In
  descending order" fails for scores 1.0, NaN, 3.0 and 2.0: \<open>list.sort\<close> leaves the
  list as it is, and with \<open>max_results = 3\<close> the fallback returns the first three
  triples, the third of a higher score than the first.
\<close>

theorem fallback_first_max_results_counterexample:
  "fst (generate_recommendations failing_lib (constant_llm (ascii ''no json''))
          (example_product_request (- 1)) example_evaluated)
     = Inr \<lparr>recommendations =
               [recommendation_of_triple (example_product (ascii ''b''), Float 3, ascii ''high''),
                recommendation_of_triple (example_product (ascii ''c''), Float 2, ascii ''mid'')],
            query_details = example_product_request (- 1),
            additional_questions = Some []\<rparr>
   \<and> fst (generate_recommendations failing_lib (constant_llm (ascii ''no json''))
          (example_product_request (- 1)) example_evaluated)
     \<noteq> Inr \<lparr>recommendations =
               map recommendation_of_triple
                 (take (nat (max_results (example_product_request (- 1))))
                    (list_sort failing_lib (\<lambda>x. fst (snd x)) True example_evaluated)),
            query_details = example_product_request (- 1),
            additional_questions = Some []\<rparr>
   \<and> fst (generate_recommendations failing_lib (constant_llm (ascii ''no json''))
          (example_product_request 3) example_evaluated_nan)
     = Inr \<lparr>recommendations =
               [recommendation_of_triple (example_product (ascii ''a''), Float 1, ascii ''low''),
                recommendation_of_triple (example_product (ascii ''b''), NaN, ascii ''unknown''),
                recommendation_of_triple (example_product (ascii ''c''), Float 3, ascii ''high'')],
            query_details = example_product_request 3,
            additional_questions = Some []\<rparr>
   \<and> float_lt (Float 1) (Float 3)"
proof -
  have a: "llm_reply (constant_llm (ascii ''no json''))
             (llm_calls (constant_llm (ascii ''no json'')))
             (GenerateRecommendationsPrompt (example_product_request n) eps
                (max_results (example_product_request n))) = Inr (ascii ''no json'')" for n eps
    by (simp add: constant_llm_def)
  have c: "max_results (example_product_request n) = n" for n
    by (simp add: example_product_request_def)
  have "fst (generate_recommendations failing_lib (constant_llm (ascii ''no json''))
          (example_product_request (- 1)) example_evaluated)
     = Inr \<lparr>recommendations =
               [recommendation_of_triple (example_product (ascii ''b''), Float 3, ascii ''high''),
                recommendation_of_triple (example_product (ascii ''c''), Float 2, ascii ''mid'')],
            query_details = example_product_request (- 1),
            additional_questions = Some []\<rparr>"
    using generate_recommendations_fallback [OF a example_takes_fallback]
    by (simp add: fallback_recommendations_eq example_sorted py_slice_to_def c)
  moreover have "fst (generate_recommendations failing_lib (constant_llm (ascii ''no json''))
          (example_product_request 3) example_evaluated_nan)
     = Inr \<lparr>recommendations =
               [recommendation_of_triple (example_product (ascii ''a''), Float 1, ascii ''low''),
                recommendation_of_triple (example_product (ascii ''b''), NaN, ascii ''unknown''),
                recommendation_of_triple (example_product (ascii ''c''), Float 3, ascii ''high'')],
            query_details = example_product_request 3,
            additional_questions = Some []\<rparr>"
    using generate_recommendations_fallback [OF a example_takes_fallback]
    by (simp add: fallback_recommendations_eq example_sorted_nan py_slice_to_def c)
      (simp add: example_evaluated_nan_def)
  ultimately show ?thesis
    by (simp add: c example_sorted)
qed

text \<open>
  C10, as the code has it. \<open>_fallback_recommendations\<close> sorts the list of its caller
  in place: after the call, and so after every call of \<open>generate_recommendations\<close>
  that takes the fallback path, the caller's list is what \<open>list.sort\<close> made of it.
  With \<open>list.sort\<close> keeping its promise (\<open>list_sort_contract\<close>), it holds the same
  triples (a permutation: no product, score or reason is changed, added or lost), and
  when no score is NaN it is in descending order of the scores, triples of equal
  score in their former order. The request is handed on unchanged. A call that does
  not take the fallback path leaves the list as it was.
\<close>

theorem fallback_sorts_callers_list:
  assumes "list_sort_contract (list_sort lib) (\<lambda>x. fst (snd x)) eps"
  shows "mset (snd (fallback_recommendations lib request eps)) = mset eps
   \<and> ((\<forall>x\<in>set eps. fst (snd x) \<noteq> NaN) \<longrightarrow>
        sorted_wrt (\<lambda>a b. float_ge (fst (snd a)) (fst (snd b)))
          (snd (fallback_recommendations lib request eps))
        \<and> (\<forall>k. filter (\<lambda>x. fst (snd x) = k) (snd (fallback_recommendations lib request eps))
                 = filter (\<lambda>x. fst (snd x) = k) eps))
   \<and> query_details (fst (fallback_recommendations lib request eps)) = request
   \<and> (llm_reply l (llm_calls l)
         (GenerateRecommendationsPrompt request eps (max_results request)) = Inr content \<longrightarrow>
       fst (snd (generate_recommendations lib l request eps))
         = (if takes_fallback lib request content
            then snd (fallback_recommendations lib request eps) else eps))"
proof -
  have s: "snd (fallback_recommendations lib request eps)
             = list_sort lib (\<lambda>x. fst (snd x)) True eps"
    by (simp add: fallback_recommendations_eq)
  have "mset (snd (fallback_recommendations lib request eps)) = mset eps"
    unfolding s using assms by (simp add: list_sort_contract_def)
  moreover have "sorted_wrt (\<lambda>a b. float_ge (fst (snd a)) (fst (snd b)))
          (snd (fallback_recommendations lib request eps))
        \<and> (\<forall>k. filter (\<lambda>x. fst (snd x) = k) (snd (fallback_recommendations lib request eps))
                 = filter (\<lambda>x. fst (snd x) = k) eps)"
    if n: "\<forall>x\<in>set eps. fst (snd x) \<noteq> NaN"
  proof -
    from assms n
    have "list_sort lib (\<lambda>x. fst (snd x)) True eps
            = sort_key (\<lambda>x. - float_value (fst (snd x))) eps"
      by (simp add: list_sort_contract_def)
    with stable_sort_descending [of eps "\<lambda>x. fst (snd x)", OF n]
      stable_sort_keeps_order [of eps "\<lambda>x. fst (snd x)", OF n]
    show ?thesis unfolding s by simp
  qed
  moreover have "query_details (fst (fallback_recommendations lib request eps)) = request"
    by (simp add: fallback_recommendations_eq)
  moreover have "fst (snd (generate_recommendations lib l request eps))
         = (if takes_fallback lib request content
            then snd (fallback_recommendations lib request eps) else eps)"
    if reply: "llm_reply l (llm_calls l)
         (GenerateRecommendationsPrompt request eps (max_results request)) = Inr content"
  proof (cases "takes_fallback lib request content")
    case True
    with generate_recommendations_fallback [OF reply True] show ?thesis by simp
  next
    case False
    with generate_recommendations_no_fallback [OF reply False] show ?thesis by simp
  qed
  ultimately show ?thesis by blast
qed

theorem fallback_sorts_callers_list_witness:
  "llm_reply (constant_llm (ascii ''no json'')) (llm_calls (constant_llm (ascii ''no json'')))
     (GenerateRecommendationsPrompt (example_product_request 2) example_evaluated
        (max_results (example_product_request 2))) = Inr (ascii ''no json'')
   \<and> fst (snd (generate_recommendations failing_lib (constant_llm (ascii ''no json''))
                  (example_product_request 2) example_evaluated))
       = [(example_product (ascii ''b''), Float 3, ascii ''high''),
          (example_product (ascii ''c''), Float 2, ascii ''mid''),
          (example_product (ascii ''a''), Float 1, ascii ''low'')]
   \<and> sorted_wrt (\<lambda>a b. float_ge (fst (snd a)) (fst (snd b)))
       (snd (fallback_recommendations failing_lib (example_product_request 2)
               example_evaluated))"
proof -
  have a: "llm_reply (constant_llm (ascii ''no json''))
             (llm_calls (constant_llm (ascii ''no json'')))
             (GenerateRecommendationsPrompt (example_product_request 2) example_evaluated
                (max_results (example_product_request 2))) = Inr (ascii ''no json'')"
    by (simp add: constant_llm_def)
  have n: "\<forall>x\<in>set example_evaluated. fst (snd x) \<noteq> NaN"
    by (simp add: example_evaluated_def)
  note t = fallback_sorts_callers_list
        [where l = "constant_llm (ascii ''no json'')" and request = "example_product_request 2"
           and eps = example_evaluated and content = "ascii ''no json''"
           and lib = failing_lib, OF failing_lib_contract]
  from t a example_takes_fallback [of failing_lib "example_product_request 2"]
  have "fst (snd (generate_recommendations failing_lib (constant_llm (ascii ''no json''))
                  (example_product_request 2) example_evaluated))
          = snd (fallback_recommendations failing_lib (example_product_request 2)
                   example_evaluated)"
    by presburger
  moreover from t n
  have "sorted_wrt (\<lambda>a b. float_ge (fst (snd a)) (fst (snd b)))
       (snd (fallback_recommendations failing_lib (example_product_request 2)
               example_evaluated))"
    by blast
  ultimately show ?thesis
    using a by (simp add: fallback_recommendations_eq example_sorted)
qed

text \<open>
  The claim as it is written, "after any call that takes the fallback path the list is
  in descending-score order", fails for a list with a score that is NaN: of the
  scores 1.0, NaN, 3.0 and 2.0 no element is less than the one \<open>list.sort\<close> compares
  it with, so the call leaves the list as it was, the score 3.0 after the score 1.0.
\<close>

theorem fallback_sorts_callers_list_counterexample:
  "fst (snd (generate_recommendations failing_lib (constant_llm (ascii ''no json''))
               (example_product_request 2) example_evaluated_nan))
     = example_evaluated_nan
   \<and> \<not> sorted_wrt (\<lambda>a b. float_ge (fst (snd a)) (fst (snd b))) example_evaluated_nan
   \<and> float_lt (fst (snd (example_evaluated_nan ! 0))) (fst (snd (example_evaluated_nan ! 2)))"
proof -
  have a: "llm_reply (constant_llm (ascii ''no json''))
             (llm_calls (constant_llm (ascii ''no json'')))
             (GenerateRecommendationsPrompt (example_product_request 2) example_evaluated_nan
                (max_results (example_product_request 2))) = Inr (ascii ''no json'')"
    by (simp add: constant_llm_def)
  have "fst (snd (generate_recommendations failing_lib (constant_llm (ascii ''no json''))
               (example_product_request 2) example_evaluated_nan))
          = example_evaluated_nan"
    using generate_recommendations_fallback [OF a example_takes_fallback]
    by (simp add: fallback_recommendations_eq example_sorted_nan)
  then show ?thesis
    by (simp add: example_evaluated_nan_def)
qed

section \<open>Properties of the search query\<close>

lemma strip_with_stripped_of: "stripped_of P s (strip_with P s)"
proof -
  let ?t = "dropWhile P s"
  let ?r = "rev (dropWhile P (rev ?t))"
  have s: "s = takeWhile P s @ ?t"
    by simp
  have t: "?t = ?r @ rev (takeWhile P (rev ?t))"
    by (metis rev_append rev_rev_ident takeWhile_dropWhile_id)
  have dec: "s = takeWhile P s @ ?r @ rev (takeWhile P (rev ?t))"
    using s t by metis
  have a: "list_all P (takeWhile P s)"
    by (simp add: list_all_iff) (meson set_takeWhileD)
  have b: "list_all P (rev (takeWhile P (rev ?t)))"
    by (simp add: list_all_iff) (meson set_takeWhileD)
  have ends: "\<not> P (hd ?r) \<and> \<not> P (last ?r)" if ne: "?r \<noteq> []"
  proof
    from ne have "dropWhile P (rev ?t) \<noteq> []"
      by simp
    then have "\<not> P (hd (dropWhile P (rev ?t)))"
      by (rule hd_dropWhile)
    with ne show "\<not> P (last ?r)"
      by (simp add: last_rev)
    from ne t have "hd ?t = hd ?r"
      by (metis hd_append2)
    moreover from ne t have "?t \<noteq> []"
      by (metis append_is_Nil_conv)
    then have "\<not> P (hd ?t)"
      by (rule hd_dropWhile)
    ultimately show "\<not> P (hd ?r)"
      by simp
  qed
  have "strip_with P s = ?r"
    by (simp add: strip_with_def lstrip_with_def rstrip_with_def)
  with dec a b ends show ?thesis
    unfolding stripped_of_def by metis
qed

lemma stripped_of_sublist:
  "stripped_of P s r \<Longrightarrow> \<exists>a b. s = a @ r @ b"
  unfolding stripped_of_def by blast

text \<open>
  C7. \<open>generate_search_query\<close> calls the model exactly once, whatever the model
  answers. When the model answers with a text, the query is that text stripped four
  times in a row and nothing else: of whitespace, then of double quotes, then of
  single quotes, then of whitespace again. So the query is a contiguous part of the
  answer, with no whitespace at either end.
\<close>

theorem generate_search_query_strips_once:
  "llm_calls (snd (generate_search_query l request)) = llm_calls l + 1
   \<and> llm_reply (snd (generate_search_query l request)) = llm_reply l
   \<and> (llm_reply l (llm_calls l) (GenerateSearchQueryPrompt request) = Inr content \<longrightarrow>
        (\<exists>t1 t2 t3 q.
            fst (generate_search_query l request) = Inr q
          \<and> stripped_of isspace content t1
          \<and> stripped_of (\<lambda>c. c = 34) t1 t2
          \<and> stripped_of (\<lambda>c. c = 39) t2 t3
          \<and> stripped_of isspace t3 q
          \<and> (\<exists>before after. content = before @ q @ after)))
   \<and> (llm_reply l (llm_calls l) (GenerateSearchQueryPrompt request) = Inl e \<longrightarrow>
        fst (generate_search_query l request) = Inl e)"
proof (intro conjI impI)
  show "llm_calls (snd (generate_search_query l request)) = llm_calls l + 1"
    by (simp add: generate_search_query_def ainvoke_def split: sum.split)
  show "llm_reply (snd (generate_search_query l request)) = llm_reply l"
    by (simp add: generate_search_query_def ainvoke_def split: sum.split)
next
  assume "llm_reply l (llm_calls l) (GenerateSearchQueryPrompt request) = Inl e"
  then show "fst (generate_search_query l request) = Inl e"
    by (simp add: generate_search_query_def ainvoke_def)
next
  assume reply: "llm_reply l (llm_calls l) (GenerateSearchQueryPrompt request) = Inr content"
  let ?t1 = "py_strip content"
  let ?t2 = "py_strip_chars [34] ?t1"
  let ?t3 = "py_strip_chars [39] ?t2"
  let ?q = "py_strip ?t3"
  have r: "fst (generate_search_query l request) = Inr ?q"
    using reply by (simp add: generate_search_query_def ainvoke_def)
  have s1: "stripped_of isspace content ?t1"
    unfolding py_strip_def by (rule strip_with_stripped_of)
  have s2: "stripped_of (\<lambda>c. c = 34) ?t1 ?t2"
    using strip_with_stripped_of [of "\<lambda>c. c = 34" ?t1] by (simp add: py_strip_chars_def)
  have s3: "stripped_of (\<lambda>c. c = 39) ?t2 ?t3"
    using strip_with_stripped_of [of "\<lambda>c. c = 39" ?t2] by (simp add: py_strip_chars_def)
  have s4: "stripped_of isspace ?t3 ?q"
    unfolding py_strip_def by (rule strip_with_stripped_of)
  from stripped_of_sublist [OF s1] obtain a1 b1 where c1: "content = a1 @ ?t1 @ b1"
    by blast
  from stripped_of_sublist [OF s2] obtain a2 b2 where c2: "?t1 = a2 @ ?t2 @ b2"
    by blast
  from stripped_of_sublist [OF s3] obtain a3 b3 where c3: "?t2 = a3 @ ?t3 @ b3"
    by blast
  from stripped_of_sublist [OF s4] obtain a4 b4 where c4: "?t3 = a4 @ ?q @ b4"
    by blast
  have "content = (a1 @ a2 @ a3 @ a4) @ ?q @ (b4 @ b3 @ b2 @ b1)"
    by (subst c1, subst c2, subst c3, subst c4) simp
  then have sub: "\<exists>before after. content = before @ ?q @ after"
    by blast
  from r s1 s2 s3 s4 sub
  show "\<exists>t1 t2 t3 q.
            fst (generate_search_query l request) = Inr q
          \<and> stripped_of isspace content t1
          \<and> stripped_of (\<lambda>c. c = 34) t1 t2
          \<and> stripped_of (\<lambda>c. c = 39) t2 t3
          \<and> stripped_of isspace t3 q
          \<and> (\<exists>before after. content = before @ q @ after)"
    by blast
qed

lemma example_query:
  "py_strip (py_strip_chars [39] (py_strip_chars [34] (py_strip example_answer)))
     = ascii ''red phone''"
  by (simp add: py_strip_def py_strip_chars_def strip_with_def lstrip_with_def
      rstrip_with_def isspace_def ascii_def example_answer_def)

theorem generate_search_query_strips_once_witness:
  "llm_reply (constant_llm example_answer)
     (llm_calls (constant_llm example_answer))
     (GenerateSearchQueryPrompt (example_product_request 2))
     = Inr example_answer
   \<and> fst (generate_search_query (constant_llm example_answer)
            (example_product_request 2)) = Inr (ascii ''red phone'')
   \<and> llm_calls (snd (generate_search_query
                        (constant_llm example_answer)
                        (example_product_request 2))) = 1
   \<and> (\<exists>before after. example_answer
                        = before @ ascii ''red phone'' @ after)"
proof -
  let ?content = "example_answer"
  let ?l = "constant_llm ?content"
  have a: "llm_reply ?l (llm_calls ?l) (GenerateSearchQueryPrompt (example_product_request 2))
             = Inr ?content"
    by (simp add: constant_llm_def)
  have q: "fst (generate_search_query ?l (example_product_request 2)) = Inr (ascii ''red phone'')"
    using a by (simp add: generate_search_query_def ainvoke_def example_query)
  have n: "llm_calls ?l = 0"
    by (simp add: constant_llm_def)
  from generate_search_query_strips_once
         [where l = ?l and request = "example_product_request 2" and content = ?content]
  have calls: "llm_calls (snd (generate_search_query ?l (example_product_request 2)))
                 = llm_calls ?l + 1"
    and sub: "llm_reply ?l (llm_calls ?l) (GenerateSearchQueryPrompt (example_product_request 2))
                = Inr ?content \<longrightarrow>
              (\<exists>t1 t2 t3 q.
                  fst (generate_search_query ?l (example_product_request 2)) = Inr q
                \<and> stripped_of isspace ?content t1
                \<and> stripped_of (\<lambda>c. c = 34) t1 t2
                \<and> stripped_of (\<lambda>c. c = 39) t2 t3
                \<and> stripped_of isspace t3 q
                \<and> (\<exists>before after. ?content = before @ q @ after))"
    by blast+
  from sub a q have "\<exists>before after. ?content = before @ ascii ''red phone'' @ after"
    by auto
  with a q calls n show ?thesis
    by simp
qed

section \<open>Properties of the product extraction\<close>

lemma some_products_extracted:
  "[p. Some p \<leftarrow> map (extract_single_product lib browse request) ts]
     = concat (map (\<lambda>t. extracted_products
                            (extract_product_info lib browse (fst t) (snd t) request)) ts)"
  by (induction ts)
    (auto simp: extract_single_product_def extracted_products_def
      split: sum.splits option.splits)

lemma length_concat_extracted:
  "length (concat (map (\<lambda>t. extracted_products (g t)) ts))
     = length (filter (\<lambda>t. \<exists>p. g t = Inr (Some p)) ts)"
  by (induction ts) (auto simp: extracted_products_def split: sum.splits option.splits)

text \<open>
  A URL that \<open>urlparse\<close> rejects: \<open>_extract_marketplace_name\<close> raises,
  \<open>extract_product_info\<close> raises it again, and the task contributes nothing.
\<close>

lemma extract_product_info_bad_url:
  assumes "browse i page_url request = Inr (Content_other (JObject items))"
    and "py_float lib (case map_of items (ascii ''price'') of None \<Rightarrow> JInt 0 | Some v \<Rightarrow> v)
           = Inr f"
    and "extract_marketplace_name lib page_url = Inl e"
  shows "extract_product_info lib browse i page_url request = Inl e"
    and "extract_single_product lib browse request (i, page_url) = None"
  using assms
  by (simp_all add: extract_product_info_def extract_single_product_def product_data_of_def
      product_of_data_def then_do_def)

text \<open>
  C6. \<open>extract_multiple_products\<close> creates one extraction task for each URL, in the
  order of the URLs, and returns, in that order, exactly the products of the tasks
  whose extraction returned a product: a task whose extraction raised, or found no
  JSON, contributes nothing and does not end the call. So there are as many products
  as tasks that ended with a product, at most one for each URL.
\<close>

theorem extract_multiple_products_keeps_successes:
  "length (extraction_tasks urls) = length urls
   \<and> map snd (extraction_tasks urls) = urls
   \<and> extract_multiple_products lib browse urls request
       = concat (map (\<lambda>t. extracted_products
                             (extract_product_info lib browse (fst t) (snd t) request))
                   (extraction_tasks urls))
   \<and> length (extract_multiple_products lib browse urls request)
       = length (filter (\<lambda>t. \<exists>p. extract_product_info lib browse (fst t) (snd t) request
                                     = Inr (Some p))
                   (extraction_tasks urls))
   \<and> length (extract_multiple_products lib browse urls request) \<le> length urls"
proof -
  have eq: "extract_multiple_products lib browse urls request
       = concat (map (\<lambda>t. extracted_products
                             (extract_product_info lib browse (fst t) (snd t) request))
                   (extraction_tasks urls))"
    unfolding extract_multiple_products_def Let_def by (rule some_products_extracted)
  have len: "length (extract_multiple_products lib browse urls request)
       = length (filter (\<lambda>t. \<exists>p. extract_product_info lib browse (fst t) (snd t) request
                                     = Inr (Some p))
                   (extraction_tasks urls))"
    unfolding eq by (rule length_concat_extracted)
  have tasks: "length (extraction_tasks urls) = length urls"
    "map snd (extraction_tasks urls) = urls"
    by (simp_all add: extraction_tasks_def)
  have "length (filter (\<lambda>t. \<exists>p. extract_product_info lib browse (fst t) (snd t) request
                                     = Inr (Some p))
                   (extraction_tasks urls)) \<le> length (extraction_tasks urls)"
    by (rule length_filter_le)
  with eq len tasks show ?thesis
    by simp
qed

lemma example_extractions:
  "extract_product_info accepting_lib example_browser 0 u (example_product_request 2)
     = Inl (PyException (ascii ''timeout''))"
  "extract_product_info accepting_lib example_browser (Suc 0) u (example_product_request 2)
     = Inr None"
  "extract_product_info accepting_lib example_browser 2 u (example_product_request 2)
     = Inr (Some (example_product (ascii ''a'')))"
  by (simp_all add: extract_product_info_def example_browser_def then_do_def
      product_data_of_def product_of_data_def accepting_lib_def failing_lib_def ascii_def)

theorem extract_multiple_products_keeps_successes_witness:
  "extract_multiple_products accepting_lib example_browser
     [ascii ''u0'', ascii ''u1'', ascii ''u2''] (example_product_request 2)
     = [example_product (ascii ''a'')]"
proof -
  have "extraction_tasks [ascii ''u0'', ascii ''u1'', ascii ''u2'']
          = [(0, ascii ''u0''), (1, ascii ''u1''), (2, ascii ''u2'')]"
    by (simp add: extraction_tasks_def)
  with extract_multiple_products_keeps_successes
         [of "[ascii ''u0'', ascii ''u1'', ascii ''u2'']" accepting_lib example_browser
             "example_product_request 2"]
  show ?thesis
    by (simp add: example_extractions extracted_products_def)
qed

section \<open>Properties of the relevance evaluation\<close>

lemma evaluate_product_relevance_reply:
  assumes "llm_reply l (llm_calls l) (EvaluateProductRelevancePrompt request item) = Inr content"
  shows "fst (evaluate_product_relevance lib l request item) =
           Inr (case relevance_try lib content of
                  Inr result \<Rightarrow> result
                | Inl e \<Rightarrow> (Float 0, JStr (MSG_EVAL_ERROR_PREFIX @ str_of e)))"
  using assms
  by (simp add: evaluate_product_relevance_def ainvoke_def split: sum.split)

lemma relevance_try_no_json:
  "extract_json_from_text content = None \<or> extract_json_from_text content = Some []
     \<Longrightarrow> relevance_try lib content = Inr (Float 0, JStr MSG_RELEVANCE_FAILED)"
  by (auto simp: relevance_try_def)

lemma relevance_try_json:
  assumes "extract_json_from_text content = Some j" and "j \<noteq> []"
  shows "relevance_try lib content =
           then_do (json_loads lib j) (\<lambda>data.
           then_do (py_get data (ascii ''relevance_score'') (JFloat (Float 0))) (\<lambda>score_value.
           then_do (py_float lib score_value) (\<lambda>score.
           then_do (py_get data (ascii ''recommendation_reason'') (JStr [])) (\<lambda>reason.
           Inr (score, reason)))))"
  using assms by (simp add: relevance_try_def)

lemma py_get_not_dict:
  "(\<nexists>items. data = JObject items) \<Longrightarrow> py_get data key dflt = Inl (AttributeError_get data)"
  by (cases data) simp_all

lemma example_braces: "extract_json_from_text (ascii ''say {x} ok'') = Some (ascii ''{x}'')"
  by (simp add: extract_json_from_text_def JSON_FENCE_PATTERN_def JSON_OBJECT_PATTERN_def
      ascii_def isspace_def py_strip_def strip_with_def lstrip_with_def rstrip_with_def)

text \<open>
  C5. \<open>evaluate_product_relevance\<close> calls the model exactly once. When the model
  answers, the function returns a pair and raises nothing: the pair of 0.0 and the
  fixed message when no JSON text (or an empty one) is extracted from the answer; the
  pair of 0.0 and the message made of the error prefix and \<open>str(e)\<close> when
  \<open>json.loads\<close> raises \<open>e\<close>, when the parsed value is not a \<open>dict\<close> (\<open>.get\<close> raises), or
  when \<open>float\<close> raises \<open>e\<close> on the score; and otherwise the pair of \<open>float\<close> of the
  value of \<open>relevance_score\<close> (of 0.0 when the key is missing) and the value of
  \<open>recommendation_reason\<close> (the empty string when the key is missing).
\<close>

theorem evaluate_product_relevance_catches_parse_errors:
  "llm_calls (snd (evaluate_product_relevance lib l request item)) = llm_calls l + 1
   \<and> (llm_reply l (llm_calls l) (EvaluateProductRelevancePrompt request item) = Inr content \<longrightarrow>
        (\<exists>score reason. fst (evaluate_product_relevance lib l request item) = Inr (score, reason))
      \<and> (extract_json_from_text content = None \<or> extract_json_from_text content = Some [] \<longrightarrow>
           fst (evaluate_product_relevance lib l request item)
             = Inr (Float 0, JStr MSG_RELEVANCE_FAILED))
      \<and> (relevance_try lib content = Inl e \<longrightarrow>
           fst (evaluate_product_relevance lib l request item)
             = Inr (Float 0, JStr (MSG_EVAL_ERROR_PREFIX @ str_of e)))
      \<and> (extract_json_from_text content = Some j \<and> j \<noteq> [] \<longrightarrow>
           (json_loads lib j = Inl e' \<longrightarrow>
              fst (evaluate_product_relevance lib l request item)
                = Inr (Float 0, JStr (MSG_EVAL_ERROR_PREFIX @ str_of e')))
         \<and> (json_loads lib j = Inr data \<and> (\<nexists>items. data = JObject items) \<longrightarrow>
              fst (evaluate_product_relevance lib l request item)
                = Inr (Float 0, JStr (MSG_EVAL_ERROR_PREFIX @ str_of (AttributeError_get data))))
         \<and> (json_loads lib j = Inr (JObject items) \<longrightarrow>
              fst (evaluate_product_relevance lib l request item)
                = Inr (case py_float lib
                              (case map_of items (ascii ''relevance_score'') of
                                 None \<Rightarrow> JFloat (Float 0) | Some v \<Rightarrow> v) of
                         Inl e \<Rightarrow> (Float 0, JStr (MSG_EVAL_ERROR_PREFIX @ str_of e))
                       | Inr score \<Rightarrow>
                           (score,
                            case map_of items (ascii ''recommendation_reason'') of
                              None \<Rightarrow> JStr [] | Some v \<Rightarrow> v)))))"
proof (intro conjI impI)
  show "llm_calls (snd (evaluate_product_relevance lib l request item)) = llm_calls l + 1"
    by (simp add: evaluate_product_relevance_def ainvoke_def split: sum.split)
next
  assume reply: "llm_reply l (llm_calls l) (EvaluateProductRelevancePrompt request item)
                   = Inr content"
  note r = evaluate_product_relevance_reply [OF reply, of lib]
  show "\<exists>score reason. fst (evaluate_product_relevance lib l request item) = Inr (score, reason)"
    unfolding r by (metis surj_pair)
  {
    assume "extract_json_from_text content = None \<or> extract_json_from_text content = Some []"
    from relevance_try_no_json [OF this, of lib]
    show "fst (evaluate_product_relevance lib l request item)
            = Inr (Float 0, JStr MSG_RELEVANCE_FAILED)"
      unfolding r by simp
  }
  {
    assume "relevance_try lib content = Inl e"
    then show "fst (evaluate_product_relevance lib l request item)
                 = Inr (Float 0, JStr (MSG_EVAL_ERROR_PREFIX @ str_of e))"
      unfolding r by simp
  }
  {
    assume j: "extract_json_from_text content = Some j \<and> j \<noteq> []"
    then have t: "relevance_try lib content =
           then_do (json_loads lib j) (\<lambda>data.
           then_do (py_get data (ascii ''relevance_score'') (JFloat (Float 0))) (\<lambda>score_value.
           then_do (py_float lib score_value) (\<lambda>score.
           then_do (py_get data (ascii ''recommendation_reason'') (JStr [])) (\<lambda>reason.
           Inr (score, reason)))))"
      by (simp add: relevance_try_json)
    {
      assume "json_loads lib j = Inl e'"
      then show "fst (evaluate_product_relevance lib l request item)
                   = Inr (Float 0, JStr (MSG_EVAL_ERROR_PREFIX @ str_of e'))"
        unfolding r t by (simp add: then_do_def)
    }
    {
      assume "json_loads lib j = Inr data \<and> (\<nexists>items. data = JObject items)"
      then show "fst (evaluate_product_relevance lib l request item)
                   = Inr (Float 0, JStr (MSG_EVAL_ERROR_PREFIX @ str_of (AttributeError_get data)))"
        unfolding r t by (simp add: then_do_def py_get_not_dict)
    }
    {
      assume "json_loads lib j = Inr (JObject items)"
      then show "fst (evaluate_product_relevance lib l request item)
                = Inr (case py_float lib
                              (case map_of items (ascii ''relevance_score'') of
                                 None \<Rightarrow> JFloat (Float 0) | Some v \<Rightarrow> v) of
                         Inl e \<Rightarrow> (Float 0, JStr (MSG_EVAL_ERROR_PREFIX @ str_of e))
                       | Inr score \<Rightarrow>
                           (score,
                            case map_of items (ascii ''recommendation_reason'') of
                              None \<Rightarrow> JStr [] | Some v \<Rightarrow> v))"
        unfolding r t by (simp add: then_do_def split: sum.split)
    }
  }
qed

theorem evaluate_product_relevance_catches_parse_errors_witness:
  "llm_reply (constant_llm (ascii ''say {x} ok'')) (llm_calls (constant_llm (ascii ''say {x} ok'')))
     (EvaluateProductRelevancePrompt (example_product_request 2) (example_product (ascii ''a'')))
     = Inr (ascii ''say {x} ok'')
   \<and> extract_json_from_text (ascii ''say {x} ok'') = Some (ascii ''{x}'')
   \<and> ascii ''{x}'' \<noteq> []
   \<and> json_loads scoring_lib (ascii ''{x}'') = Inr (JObject [(ascii ''relevance_score'', JInt 4)])
   \<and> fst (evaluate_product_relevance scoring_lib (constant_llm (ascii ''say {x} ok''))
            (example_product_request 2) (example_product (ascii ''a''))) = Inr (Float 4, JStr [])
   \<and> json_loads failing_lib (ascii ''{x}'') = Inl (PyException (ascii ''Expecting value''))
   \<and> fst (evaluate_product_relevance failing_lib (constant_llm (ascii ''say {x} ok''))
            (example_product_request 2) (example_product (ascii ''a'')))
       = Inr (Float 0, JStr (MSG_EVAL_ERROR_PREFIX @ ascii ''Expecting value''))
   \<and> llm_calls (snd (evaluate_product_relevance failing_lib (constant_llm (ascii ''say {x} ok''))
            (example_product_request 2) (example_product (ascii ''a'')))) = 1"
proof -
  let ?l = "constant_llm (ascii ''say {x} ok'')"
  let ?rq = "example_product_request 2"
  let ?p = "example_product (ascii ''a'')"
  have a: "llm_reply ?l (llm_calls ?l) (EvaluateProductRelevancePrompt ?rq ?p)
             = Inr (ascii ''say {x} ok'')"
    by (simp add: constant_llm_def)
  have b: "extract_json_from_text (ascii ''say {x} ok'') = Some (ascii ''{x}'')"
    by (rule example_braces)
  have c: "ascii ''{x}'' \<noteq> []"
    by (simp add: ascii_def)
  have d: "json_loads scoring_lib (ascii ''{x}'')
             = Inr (JObject [(ascii ''relevance_score'', JInt 4)])"
    by (simp add: scoring_lib_def failing_lib_def)
  have f: "json_loads failing_lib (ascii ''{x}'') = Inl (PyException (ascii ''Expecting value''))"
    by (simp add: failing_lib_def)
  have n: "llm_calls ?l = 0"
    by (simp add: constant_llm_def)
  have m: "map_of [(ascii ''relevance_score'', JInt 4)] (ascii ''relevance_score'') = Some (JInt 4)"
    "map_of [(ascii ''relevance_score'', JInt 4)] (ascii ''recommendation_reason'') = None"
    by (simp_all add: ascii_def)
  have k: "ascii ''recommendation_reason'' \<noteq> ascii ''relevance_score''"
    by (simp add: ascii_def)
  have fl: "float_of_int scoring_lib 4 = Inr (Float 4)"
    by (simp add: scoring_lib_def failing_lib_def)
  from evaluate_product_relevance_catches_parse_errors
         [where lib = scoring_lib and l = ?l and request = ?rq and item = ?p
            and content = "ascii ''say {x} ok''" and j = "ascii ''{x}''"
            and items = "[(ascii ''relevance_score'', JInt 4)]"]
    a b c d
  have s: "fst (evaluate_product_relevance scoring_lib ?l ?rq ?p) = Inr (Float 4, JStr [])"
    by (simp add: m fl k)
  from evaluate_product_relevance_catches_parse_errors
         [where lib = failing_lib and l = ?l and request = ?rq and item = ?p
            and content = "ascii ''say {x} ok''" and j = "ascii ''{x}''"
            and e' = "PyException (ascii ''Expecting value'')"]
    a b c f n
  have t: "fst (evaluate_product_relevance failing_lib ?l ?rq ?p)
             = Inr (Float 0, JStr (MSG_EVAL_ERROR_PREFIX @ ascii ''Expecting value''))"
    and u: "llm_calls (snd (evaluate_product_relevance failing_lib ?l ?rq ?p)) = 1"
    by simp_all
  from a b c d f s t u show ?thesis
    by blast
qed

section \<open>Properties of the JSON extraction\<close>

subsection \<open>Substring search\<close>

lemma startswith_Nil [simp]: "startswith s []"
  by (simp add: startswith_def)

lemma startswith_Cons:
  "startswith (x # xs) (c # cs) \<longleftrightarrow> x = c \<and> startswith xs cs"
  by (auto simp: startswith_def)

lemma startswith_Nil_left: "startswith [] pat \<longleftrightarrow> pat = []"
  by (auto simp: startswith_def)

lemma startswith_append: "startswith s pat \<longleftrightarrow> (\<exists>rest. s = pat @ rest)"
proof
  assume "startswith s pat"
  then have "s = pat @ drop (length pat) s"
    by (metis append_take_drop_id startswith_def)
  then show "\<exists>rest. s = pat @ rest" ..
next
  assume "\<exists>rest. s = pat @ rest"
  then show "startswith s pat"
    by (auto simp: startswith_def)
qed

lemma str_find_Some:
  "str_find pat s = Some i \<Longrightarrow>
     i \<le> length s \<and> startswith (drop i s) pat \<and> (\<forall>j<i. \<not> startswith (drop j s) pat)"
proof (induction s arbitrary: i)
  case Nil
  then show ?case by (auto split: if_splits)
next
  case (Cons x xs)
  show ?case
  proof (cases "startswith (x # xs) pat")
    case True
    with Cons.prems show ?thesis by simp
  next
    case False
    with Cons.prems obtain i' where i': "str_find pat xs = Some i'" "i = Suc i'"
      by auto
    from Cons.IH [OF i'(1)] False i'(2) show ?thesis
      by (auto simp: less_Suc_eq_0_disj)
  qed
qed

lemma str_find_None:
  "str_find pat s = None \<Longrightarrow> \<not> startswith (drop j s) pat"
proof (induction s arbitrary: j)
  case Nil
  then show ?case by (auto simp: startswith_Nil_left split: if_splits)
next
  case (Cons x xs)
  then have no: "\<not> startswith (x # xs) pat" and rest: "str_find pat xs = None"
    by (auto split: if_splits)
  show ?case
  proof (cases j)
    case 0
    with no show ?thesis by simp
  next
    case (Suc j')
    with Cons.IH [OF rest] show ?thesis by simp
  qed
qed

lemma str_find_occurs:
  "str_find pat (pre @ pat @ post) \<noteq> None"
proof
  assume "str_find pat (pre @ pat @ post) = None"
  from str_find_None [OF this, of "length pre"] show False
    by (simp add: startswith_append)
qed

lemma str_find_decomp:
  assumes "str_find pat s = Some i"
  shows "\<exists>post. s = take i s @ pat @ post"
proof -
  from str_find_Some [OF assms] have "startswith (drop i s) pat"
    by simp
  then obtain post where "drop i s = pat @ post"
    by (auto simp: startswith_append)
  then have "s = take i s @ pat @ post"
    by (metis append_take_drop_id)
  then show ?thesis ..
qed

lemma str_find_drop_None:
  assumes "str_find pat s = None"
  shows "str_find pat (drop n s) = None"
proof (rule ccontr)
  assume "str_find pat (drop n s) \<noteq> None"
  then obtain i where "str_find pat (drop n s) = Some i"
    by auto
  from str_find_Some [OF this] have "startswith (drop (i + n) s) pat"
    by simp
  with str_find_None [OF assms] show False
    by blast
qed
subsection \<open>The matcher on the pieces of the two patterns\<close>

lemma not_space_fence [simp]: "\<not> isspace 96" "\<not> isspace 123" "\<not> isspace 125"
  by (simp_all add: isspace_def)

lemma in_class_any [simp]: "in_class (Either Whitespace Not_whitespace) c"
  by simp

lemma match_here_lits:
  "match_here (map Lit lits @ r) s =
     (if startswith s lits then match_here r (drop (length lits) s) else None)"
proof (induction lits arbitrary: s)
  case Nil
  show ?case by simp
next
  case (Cons c cs)
  show ?case
  proof (cases s)
    case Nil
    then show ?thesis by (simp add: startswith_Nil_left)
  next
    case (Cons x xs)
    with Cons.IH [of xs] show ?thesis
      by (simp add: startswith_Cons)
  qed
qed

text \<open>The first and the last suffix of a text, from the left, that a continuation
  accepts: what a lazy and a greedy star over every character try.\<close>

lemma match_here_lazy_any:
  "match_here (Star_lazy (Either Whitespace Not_whitespace) # r) s = search r s"
proof (induction s)
  case Nil
  show ?case by (simp split: option.split)
next
  case (Cons x xs)
  then show ?case by (simp split: option.split)
qed

lemma match_here_greedy_space_lit:
  assumes "\<not> isspace c"
  shows "match_here (Star_greedy Whitespace # Lit c # r) s
           = match_here (Lit c # r) (dropWhile isspace s)"
proof (induction s)
  case Nil
  show ?case by simp
next
  case (Cons x xs)
  show ?case
  proof (cases "isspace x")
    case True
    with assms have "x \<noteq> c" by auto
    with True Cons.IH show ?thesis
      by (simp split: option.split)
  next
    case False
    then show ?thesis by simp
  qed
qed

lemma search_None_iff:
  "search r s = None \<longleftrightarrow> (\<forall>j\<le>length s. match_here r (drop j s) = None)"
proof (induction s)
  case Nil
  show ?case by simp
next
  case (Cons x xs)
  show ?case
  proof
    assume a: "search r (x # xs) = None"
    then have h: "match_here r (x # xs) = None" and t: "search r xs = None"
      by (auto split: option.splits)
    show "\<forall>j\<le>length (x # xs). match_here r (drop j (x # xs)) = None"
    proof (intro allI impI)
      fix j assume "j \<le> length (x # xs)"
      with h t Cons.IH show "match_here r (drop j (x # xs)) = None"
        by (cases j) auto
    qed
  next
    assume a: "\<forall>j\<le>length (x # xs). match_here r (drop j (x # xs)) = None"
    then have "match_here r (drop 0 (x # xs)) = None"
      by blast
    moreover have "\<forall>j\<le>length xs. match_here r (drop j xs) = None"
    proof (intro allI impI)
      fix j assume "j \<le> length xs"
      with a have "match_here r (drop (Suc j) (x # xs)) = None"
        by (metis Suc_le_mono length_Cons)
      then show "match_here r (drop j xs) = None" by simp
    qed
    ultimately show "search r (x # xs) = None"
      using Cons.IH by simp
  qed
qed

lemma search_Some:
  "search r s = Some m \<Longrightarrow>
     \<exists>j\<le>length s. match_here r (drop j s) = Some m
        \<and> (\<forall>i<j. match_here r (drop i s) = None)"
proof (induction s)
  case Nil
  then show ?case by simp
next
  case (Cons x xs)
  show ?case
  proof (cases "match_here r (x # xs)")
    case (Some m')
    with Cons.prems have "m' = m" by simp
    with Some have "match_here r (drop 0 (x # xs)) = Some m
        \<and> (\<forall>i<0. match_here r (drop i (x # xs)) = None)"
      by simp
    then show ?thesis by blast
  next
    case None
    with Cons.prems have "search r xs = Some m" by simp
    from Cons.IH [OF this] obtain j where j: "j \<le> length xs"
      "match_here r (drop j xs) = Some m" "\<forall>i<j. match_here r (drop i xs) = None"
      by blast
    have "\<forall>i<Suc j. match_here r (drop i (x # xs)) = None"
    proof (intro allI impI)
      fix i assume "i < Suc j"
      with None j(3) show "match_here r (drop i (x # xs)) = None"
        by (cases i) auto
    qed
    with j(1,2) have "Suc j \<le> length (x # xs) \<and> match_here r (drop (Suc j) (x # xs)) = Some m
        \<and> (\<forall>i<Suc j. match_here r (drop i (x # xs)) = None)"
      by simp
    then show ?thesis by blast
  qed
qed
subsection \<open>The fenced block\<close>

lemma startswith_fence_close: "startswith (x # xs) FENCE_CLOSE \<Longrightarrow> x = 96"
  by (simp add: FENCE_CLOSE_def startswith_Cons)

lemma str_find_close_space:
  "isspace x \<Longrightarrow> str_find FENCE_CLOSE (x # xs) = map_option Suc (str_find FENCE_CLOSE xs)"
  using startswith_fence_close [of x xs] by auto

lemma str_find_close_dropWhile:
  "str_find FENCE_CLOSE u = Some k \<Longrightarrow>
     length (takeWhile isspace u) \<le> k
     \<and> str_find FENCE_CLOSE (dropWhile isspace u) = Some (k - length (takeWhile isspace u))"
proof (induction u arbitrary: k)
  case Nil
  then show ?case by (simp add: FENCE_CLOSE_def)
next
  case (Cons x xs)
  show ?case
  proof (cases "isspace x")
    case True
    with Cons.prems obtain k' where k': "str_find FENCE_CLOSE xs = Some k'" "k = Suc k'"
      by (auto simp: str_find_close_space simp del: str_find.simps)
    from Cons.IH [OF k'(1)] True k'(2) show ?thesis by simp
  next
    case False
    with Cons.prems show ?thesis by simp
  qed
qed

lemma str_find_close_dropWhile_None:
  "str_find FENCE_CLOSE (dropWhile isspace u) = None \<longleftrightarrow> str_find FENCE_CLOSE u = None"
proof
  assume "str_find FENCE_CLOSE (dropWhile isspace u) = None"
  then show "str_find FENCE_CLOSE u = None"
    using str_find_close_dropWhile [of u] by (cases "str_find FENCE_CLOSE u") auto
next
  assume "str_find FENCE_CLOSE u = None"
  then have "str_find FENCE_CLOSE (drop (length (takeWhile isspace u)) u) = None"
    by (rule str_find_drop_None)
  then show "str_find FENCE_CLOSE (dropWhile isspace u) = None"
    by (simp add: dropWhile_eq_drop)
qed

lemma str_find_close_after_space:
  "startswith (dropWhile isspace u) FENCE_CLOSE \<Longrightarrow>
     str_find FENCE_CLOSE u = Some (length (takeWhile isspace u))"
proof (induction u)
  case Nil
  then show ?case by (simp add: startswith_Nil_left FENCE_CLOSE_def)
next
  case (Cons x xs)
  then show ?case
    by (cases "isspace x") (simp_all add: str_find_close_space del: str_find.simps, simp)
qed

text \<open>The end of the fence pattern: the closing parenthesis of the group, \<open>\s*\<close> and
  the closing fence.\<close>

lemma match_here_fence_tail:
  "match_here (Group_close # Star_greedy Whitespace # map Lit FENCE_CLOSE) u =
     (if startswith (dropWhile isspace u) FENCE_CLOSE
      then Some ([u], drop 3 (dropWhile isspace u)) else None)"
proof -
  have "match_here (Star_greedy Whitespace # map Lit FENCE_CLOSE) u
          = match_here (map Lit FENCE_CLOSE @ []) (dropWhile isspace u)"
    using match_here_greedy_space_lit [of 96 "[Lit 96, Lit 96]" u]
    by (simp add: FENCE_CLOSE_def)
  also have "\<dots> = (if startswith (dropWhile isspace u) FENCE_CLOSE
                    then Some ([], drop 3 (dropWhile isspace u)) else None)"
    unfolding match_here_lits by (simp add: FENCE_CLOSE_def numeral_3_eq_3)
  finally show ?thesis by simp
qed

lemma search_fence_tail_None:
  assumes "str_find FENCE_CLOSE u = None"
  shows "search (Group_close # Star_greedy Whitespace # map Lit FENCE_CLOSE) u = None"
proof -
  have "match_here (Group_close # Star_greedy Whitespace # map Lit FENCE_CLOSE) (drop j u) = None"
    for j
  proof -
    have "str_find FENCE_CLOSE (dropWhile isspace (drop j u)) = None"
      using assms by (simp add: str_find_close_dropWhile_None str_find_drop_None)
    from str_find_None [OF this, of 0]
    show ?thesis by (simp add: match_here_fence_tail del: match_here.simps)
  qed
  then show ?thesis by (simp add: search_None_iff)
qed

lemma search_fence_tail_Some:
  "str_find FENCE_CLOSE u = Some k \<Longrightarrow>
     \<exists>m\<le>k. search (Group_close # Star_greedy Whitespace # map Lit FENCE_CLOSE) u
                = Some ([drop m u], drop (k + 3) u)
            \<and> list_all isspace (drop m (take k u))"
proof (induction u arbitrary: k)
  case Nil
  then show ?case by (simp add: FENCE_CLOSE_def)
next
  case (Cons x xs)
  let ?tail = "Group_close # Star_greedy Whitespace # map Lit FENCE_CLOSE"
  show ?case
  proof (cases "startswith (dropWhile isspace (x # xs)) FENCE_CLOSE")
    case True
    from str_find_close_after_space [OF True] Cons.prems
    have k: "k = length (takeWhile isspace (x # xs))"
      by simp
    have "search ?tail (x # xs) = Some ([x # xs], drop 3 (dropWhile isspace (x # xs)))"
      using True by (simp add: match_here_fence_tail del: match_here.simps)
    also have "drop 3 (dropWhile isspace (x # xs)) = drop (k + 3) (x # xs)"
      unfolding k dropWhile_eq_drop by (simp add: add.commute)
    finally have "search ?tail (x # xs) = Some ([drop 0 (x # xs)], drop (k + 3) (x # xs))"
      by simp
    moreover have "list_all isspace (drop 0 (take k (x # xs)))"
      unfolding k by (simp add: list_all_iff flip: takeWhile_eq_take) (meson set_takeWhileD)
    ultimately show ?thesis by blast
  next
    case False
    have "\<not> startswith (x # xs) FENCE_CLOSE"
    proof
      assume s: "startswith (x # xs) FENCE_CLOSE"
      then have "x = 96" by (rule startswith_fence_close)
      with s False show False by simp
    qed
    with Cons.prems obtain k' where k': "str_find FENCE_CLOSE xs = Some k'" "k = Suc k'"
      by auto
    from Cons.IH [OF k'(1)] obtain m' where m': "m' \<le> k'"
      "search ?tail xs = Some ([drop m' xs], drop (k' + 3) xs)"
      "list_all isspace (drop m' (take k' xs))"
      by blast
    have "search ?tail (x # xs) = search ?tail xs"
      using False by (simp add: match_here_fence_tail del: match_here.simps)
    with m' k'(2) have "Suc m' \<le> k
        \<and> search ?tail (x # xs) = Some ([drop (Suc m') (x # xs)], drop (k + 3) (x # xs))
        \<and> list_all isspace (drop (Suc m') (take k (x # xs)))"
      by (simp add: drop_Cons' add.commute del: search.simps match_here.simps)
    then show ?thesis by blast
  qed
qed
lemma search_fence_tail_None_iff:
  "search (Group_close # Star_greedy Whitespace # map Lit FENCE_CLOSE) u = None
     \<longleftrightarrow> str_find FENCE_CLOSE u = None"
proof (cases "str_find FENCE_CLOSE u")
  case None
  then show ?thesis by (simp add: search_fence_tail_None)
next
  case (Some k)
  from search_fence_tail_Some [OF Some] Some show ?thesis by auto
qed

text \<open>The group with its lazy star, in front of the end of the pattern.\<close>

lemma match_here_fence_group:
  "match_here (Group_open # Star_lazy (Either Whitespace Not_whitespace)
                 # Group_close # Star_greedy Whitespace # map Lit FENCE_CLOSE) u =
     (case search (Group_close # Star_greedy Whitespace # map Lit FENCE_CLOSE) u of
        None \<Rightarrow> None
      | Some (marks, rest) \<Rightarrow> Some (u # marks, rest))"
  by (simp only: match_here.simps(3) match_here_lazy_any)

lemma match_here_fence_group_None_iff:
  "match_here (Group_open # Star_lazy (Either Whitespace Not_whitespace)
                 # Group_close # Star_greedy Whitespace # map Lit FENCE_CLOSE) u = None
     \<longleftrightarrow> str_find FENCE_CLOSE u = None"
  unfolding match_here_fence_group
  using search_fence_tail_None_iff [of u]
  by (auto split: option.splits)

lemma match_here_space_fence_group:
  "match_here (Star_greedy Whitespace # Group_open # Star_lazy (Either Whitespace Not_whitespace)
                 # Group_close # Star_greedy Whitespace # map Lit FENCE_CLOSE) v =
   match_here (Group_open # Star_lazy (Either Whitespace Not_whitespace)
                 # Group_close # Star_greedy Whitespace # map Lit FENCE_CLOSE)
     (dropWhile isspace v)"
proof (induction v)
  case Nil
  show ?case by simp
next
  case (Cons x xs)
  let ?G = "Group_open # Star_lazy (Either Whitespace Not_whitespace)
              # Group_close # Star_greedy Whitespace # map Lit FENCE_CLOSE"
  show ?case
  proof (cases "isspace x")
    case False
    then show ?thesis
      by simp
  next
    case True
    have unfold: "match_here (Star_greedy Whitespace # ?G) (x # xs) =
        (case match_here (Star_greedy Whitespace # ?G) xs of
           Some m \<Rightarrow> Some m | None \<Rightarrow> match_here ?G (x # xs))"
      using True by simp
    show ?thesis
    proof (cases "match_here ?G (dropWhile isspace xs)")
      case (Some m)
      with Cons.IH unfold True show ?thesis
        by (simp del: match_here.simps)
    next
      case None
      then have "str_find FENCE_CLOSE (dropWhile isspace xs) = None"
        by (simp only: match_here_fence_group_None_iff)
      then have "str_find FENCE_CLOSE xs = None"
        by (simp only: str_find_close_dropWhile_None)
      then have "str_find FENCE_CLOSE (x # xs) = None"
        using True by (simp add: str_find_close_space del: str_find.simps)
      then have "match_here ?G (x # xs) = None"
        by (simp only: match_here_fence_group_None_iff)
      with None Cons.IH unfold True show ?thesis
        by (simp del: match_here.simps)
    qed
  qed
qed

lemma JSON_FENCE_PATTERN_eq:
  "JSON_FENCE_PATTERN =
     map Lit FENCE_OPEN
     @ (Star_greedy Whitespace # Group_open # Star_lazy (Either Whitespace Not_whitespace)
          # Group_close # Star_greedy Whitespace # map Lit FENCE_CLOSE)"
  by (simp add: JSON_FENCE_PATTERN_def FENCE_OPEN_def FENCE_CLOSE_def)

lemma length_FENCE_OPEN: "length FENCE_OPEN = 7"
  by (simp add: FENCE_OPEN_def ascii_def)

lemma match_here_fence:
  "match_here JSON_FENCE_PATTERN s =
     (if startswith s FENCE_OPEN
      then match_here (Group_open # Star_lazy (Either Whitespace Not_whitespace)
                         # Group_close # Star_greedy Whitespace # map Lit FENCE_CLOSE)
             (dropWhile isspace (drop 7 s))
      else None)"
  unfolding JSON_FENCE_PATTERN_eq match_here_lits match_here_space_fence_group length_FENCE_OPEN
  by (rule refl)

lemma search_first:
  "j \<le> length s \<Longrightarrow> match_here r (drop j s) = Some m
     \<Longrightarrow> (\<And>i. i < j \<Longrightarrow> match_here r (drop i s) = None) \<Longrightarrow> search r s = Some m"
proof (induction s arbitrary: j)
  case Nil
  then show ?case by simp
next
  case (Cons x xs)
  show ?case
  proof (cases j)
    case 0
    with Cons.prems(2) show ?thesis by (simp del: match_here.simps)
  next
    case (Suc j')
    with Cons.prems(3) [of 0] have "match_here r (x # xs) = None"
      by simp
    moreover have "search r xs = Some m"
    proof (rule Cons.IH [of j'])
      show "j' \<le> length xs" using Cons.prems(1) Suc by simp
      show "match_here r (drop j' xs) = Some m" using Cons.prems(2) Suc by simp
      show "match_here r (drop i xs) = None" if "i < j'" for i
        using Cons.prems(3) [of "Suc i"] that Suc by simp
    qed
    ultimately show ?thesis by (simp del: match_here.simps)
  qed
qed

lemma search_fence_None:
  assumes "spec_fenced_block text = None"
  shows "search JSON_FENCE_PATTERN text = None"
proof -
  have "match_here JSON_FENCE_PATTERN (drop j text) = None" for j
  proof (cases "startswith (drop j text) FENCE_OPEN")
    case False
    then show ?thesis by (simp only: match_here_fence if_False)
  next
    case True
    then obtain i where i: "str_find FENCE_OPEN text = Some i"
      using str_find_None [of FENCE_OPEN "text" j] by (cases "str_find FENCE_OPEN text") auto
    from str_find_Some [OF i] True have "i \<le> j"
      by (meson not_le)
    from assms i have "str_find FENCE_CLOSE (drop (i + 7) text) = None"
      by (simp add: spec_fenced_block_def length_FENCE_OPEN Let_def split: option.splits)
    then have "str_find FENCE_CLOSE (drop (j - i) (drop (i + 7) text)) = None"
      by (rule str_find_drop_None)
    with \<open>i \<le> j\<close> have "str_find FENCE_CLOSE (drop 7 (drop j text)) = None"
      by (simp add: add.commute)
    then have "str_find FENCE_CLOSE (dropWhile isspace (drop 7 (drop j text))) = None"
      by (simp only: str_find_close_dropWhile_None)
    then show ?thesis
      using True by (simp only: match_here_fence if_True match_here_fence_group_None_iff)
  qed
  then show ?thesis by (simp add: search_None_iff)
qed

subsection \<open>Stripping\<close>

lemma strip_with_pad:
  assumes "list_all P w1" "list_all P w2"
  shows "strip_with P (w1 @ g @ w2) = strip_with P g"
proof -
  have l: "dropWhile P (w1 @ g @ w2) = dropWhile P (g @ w2)"
    using assms(1) by (simp add: list_all_iff dropWhile_append2)
  show ?thesis
  proof (cases "\<forall>x\<in>set g. P x")
    case True
    then have "dropWhile P (w1 @ g @ w2) = []" "dropWhile P g = []"
      using assms by (auto simp: list_all_iff)
    then show ?thesis
      by (simp only: strip_with_def lstrip_with_def rstrip_with_def)
  next
    case False
    then have "dropWhile P (g @ w2) = dropWhile P g @ w2"
      by (auto simp: dropWhile_append1)
    moreover have "dropWhile P (rev w2 @ rev (dropWhile P g)) = dropWhile P (rev (dropWhile P g))"
      using assms(2) by (intro dropWhile_append2) (auto simp: list_all_iff)
    ultimately show ?thesis
      using l by (simp add: strip_with_def lstrip_with_def rstrip_with_def)
  qed
qed

lemma strip_with_id:
  assumes "s \<noteq> []" "\<not> P (hd s)" "\<not> P (last s)"
  shows "strip_with P s = s"
proof -
  from assms have "dropWhile P s = s"
    by (cases s) auto
  moreover from assms have "dropWhile P (rev s) = rev s"
    by (cases "rev s") (auto simp: hd_rev)
  ultimately show ?thesis
    by (simp add: strip_with_def lstrip_with_def rstrip_with_def)
qed

lemma strip_with_sublist:
  "\<exists>before after. s = before @ strip_with P s @ after"
proof -
  have "rev (rev (dropWhile P s))
          = rev (takeWhile P (rev (dropWhile P s)) @ dropWhile P (rev (dropWhile P s)))"
    by (simp only: takeWhile_dropWhile_id)
  then have "dropWhile P s = strip_with P s @ rev (takeWhile P (rev (dropWhile P s)))"
    by (simp only: rev_rev_ident rev_append strip_with_def lstrip_with_def rstrip_with_def)
  moreover have "s = takeWhile P s @ dropWhile P s"
    by (simp only: takeWhile_dropWhile_id)
  ultimately have "s = takeWhile P s @ strip_with P s @ rev (takeWhile P (rev (dropWhile P s)))"
    by (simp only:)
  then show ?thesis by blast
qed

lemma search_fence_Some:
  assumes "spec_fenced_block text = Some body"
  shows "\<exists>marks rest. search JSON_FENCE_PATTERN text = Some (marks, rest)
           \<and> py_strip (group1 marks) = py_strip body"
proof -
  let ?G = "Group_open # Star_lazy (Either Whitespace Not_whitespace)
              # Group_close # Star_greedy Whitespace # map Lit FENCE_CLOSE"
  from assms obtain i k where i: "str_find FENCE_OPEN text = Some i"
    and k: "str_find FENCE_CLOSE (drop (i + 7) text) = Some k"
    and body: "body = take k (drop (i + 7) text)"
    by (auto simp: spec_fenced_block_def length_FENCE_OPEN Let_def split: option.splits)
  define after where "after = drop (i + 7) text"
  define n where "n = length (takeWhile isspace after)"
  define v where "v = dropWhile isspace after"
  from k have k': "str_find FENCE_CLOSE after = Some k"
    by (simp add: after_def)
  from str_find_close_dropWhile [OF k'] have nk: "n \<le> k"
    and kv: "str_find FENCE_CLOSE v = Some (k - n)"
    by (simp_all add: n_def v_def)
  from search_fence_tail_Some [OF kv] obtain m where m: "m \<le> k - n"
    and s: "search (Group_close # Star_greedy Whitespace # map Lit FENCE_CLOSE) v
              = Some ([drop m v], drop (k - n + 3) v)"
    and w: "list_all isspace (drop m (take (k - n) v))"
    by blast
  from str_find_Some [OF kv] have kn: "k - n \<le> length v"
    by simp
  have g: "match_here ?G v = Some ([v, drop m v], drop (k - n + 3) v)"
    unfolding match_here_fence_group s by simp
  from str_find_Some [OF i] have st: "startswith (drop i text) FENCE_OPEN" and il: "i \<le> length text"
    and before: "\<And>j. j < i \<Longrightarrow> \<not> startswith (drop j text) FENCE_OPEN"
    by simp_all
  have "match_here JSON_FENCE_PATTERN (drop i text) = match_here ?G v"
    using st by (simp only: match_here_fence if_True v_def after_def drop_drop add.commute)
  with g have here: "match_here JSON_FENCE_PATTERN (drop i text)
                       = Some ([v, drop m v], drop (k - n + 3) v)"
    by simp
  have found: "search JSON_FENCE_PATTERN text = Some ([v, drop m v], drop (k - n + 3) v)"
  proof (rule search_first [OF il here])
    fix j assume "j < i"
    from before [OF this] show "match_here JSON_FENCE_PATTERN (drop j text) = None"
      by (simp only: match_here_fence if_False)
  qed
  have grp: "group1 [v, drop m v] = take m v"
    using m kn by simp
  have "body = take k after"
    by (simp add: body after_def)
  also have "\<dots> = take k (takeWhile isspace after @ v)"
    by (simp add: v_def)
  also have "\<dots> = takeWhile isspace after @ take (k - n) v"
    using nk by (simp add: n_def)
  also have "take (k - n) v = take m (take (k - n) v) @ drop m (take (k - n) v)"
    by (simp only: append_take_drop_id)
  also have "take m (take (k - n) v) = take m v"
    using m by (simp add: min_def)
  finally have "body = takeWhile isspace after @ take m v @ drop m (take (k - n) v)" .
  moreover have "list_all isspace (takeWhile isspace after)"
    by (simp add: list_all_iff) (meson set_takeWhileD)
  ultimately have "py_strip body = py_strip (take m v)"
    using w by (simp add: py_strip_def strip_with_pad)
  with found grp show ?thesis by simp
qed
subsection \<open>The braces\<close>

lemma match_here_greedy_any_Cons:
  "match_here (Star_greedy (Either Whitespace Not_whitespace) # r) (x # xs) =
     (case match_here (Star_greedy (Either Whitespace Not_whitespace) # r) xs of
        Some m \<Rightarrow> Some m
      | None \<Rightarrow> match_here r (x # xs))"
  by simp

lemma match_here_greedy_any_None:
  "125 \<notin> set u \<Longrightarrow>
     match_here [Star_greedy (Either Whitespace Not_whitespace), Lit 125, Group_close] u = None"
  by (induction u) simp_all

lemma match_here_greedy_any_last:
  "125 \<notin> set c \<Longrightarrow>
     match_here [Star_greedy (Either Whitespace Not_whitespace), Lit 125, Group_close]
       (b @ 125 # c) = Some ([c], c)"
  by (induction b)
    (simp_all add: match_here_greedy_any_Cons match_here_greedy_any_None
       del: match_here.simps(5))

lemma match_here_object:
  "match_here JSON_OBJECT_PATTERN s =
     (case s of
        [] \<Rightarrow> None
      | x # rest \<Rightarrow>
          if x = 123
          then (case match_here [Star_greedy (Either Whitespace Not_whitespace), Lit 125,
                                  Group_close] rest of
                  None \<Rightarrow> None
                | Some (marks, e) \<Rightarrow> Some ((x # rest) # marks, e))
          else None)"
  by (cases s) (simp_all add: JSON_OBJECT_PATTERN_def del: match_here.simps(5))

lemma search_object_Some:
  "123 \<notin> set a \<Longrightarrow> 125 \<notin> set c \<Longrightarrow>
     search JSON_OBJECT_PATTERN (a @ 123 # b @ 125 # c) = Some ([123 # b @ 125 # c, c], c)"
  by (induction a)
    (simp_all add: match_here_object match_here_greedy_any_last del: match_here.simps)

lemma search_object_None:
  assumes "\<nexists>a b c. s = a @ 123 # b @ 125 # c"
  shows "search JSON_OBJECT_PATTERN s = None"
proof -
  have "match_here JSON_OBJECT_PATTERN (drop j s) = None" for j
  proof (cases "drop j s")
    case Nil
    then show ?thesis by (simp add: match_here_object)
  next
    case (Cons x rest)
    show ?thesis
    proof (cases "x = 123")
      case False
      with Cons show ?thesis by (simp add: match_here_object)
    next
      case True
      have "125 \<notin> set rest"
      proof
        assume "125 \<in> set rest"
        then obtain b c where "rest = b @ 125 # c"
          by (auto dest: split_list)
        with Cons True have "s = take j s @ 123 # b @ 125 # c"
          by (metis append_take_drop_id)
        with assms show False by blast
      qed
      with Cons True show ?thesis
        by (simp add: match_here_object match_here_greedy_any_None del: match_here.simps)
    qed
  qed
  then show ?thesis by (simp add: search_None_iff)
qed

lemma brace_split:
  assumes "s = a @ 123 # b @ (125 :: pychar) # c"
  shows "\<exists>a' b' c'. s = a' @ 123 # b' @ 125 # c' \<and> 123 \<notin> set a' \<and> 125 \<notin> set c'"
proof -
  from assms have "123 \<in> set s" by simp
  then obtain a' r where s: "s = a' @ 123 # r" and a': "123 \<notin> set a'"
    by (auto dest: split_list_first)
  from assms s have "a @ 123 # b @ 125 # c = a' @ 123 # r"
    by simp
  then have "125 \<in> set r"
    using a' by (auto simp: append_eq_append_conv2 Cons_eq_append_conv append_eq_Cons_conv)
  then obtain b' c' where "r = b' @ 125 # c'" "125 \<notin> set c'"
    by (auto dest: split_list_last)
  with s a' show ?thesis by blast
qed

lemma spec_first_to_last_brace_Some:
  assumes "123 \<notin> set a" "125 \<notin> set c"
  shows "spec_first_to_last_brace (a @ 123 # b @ 125 # c) = Some (123 # b @ [125])"
proof -
  have "dropWhile (\<lambda>x. x \<noteq> 123) (a @ 123 # b @ 125 # c) = 123 # b @ 125 # c"
    using assms(1) by (induction a) auto
  moreover have "dropWhile (\<lambda>x. x \<noteq> 125) (rev c @ 125 # rev b @ [123]) = 125 # rev b @ [123]"
    using assms(2) by (induction c rule: rev_induct) auto
  ultimately show ?thesis
    by (simp add: spec_first_to_last_brace_def)
qed

lemma spec_first_to_last_brace_None:
  assumes "\<nexists>a b c. s = a @ 123 # b @ 125 # c"
  shows "spec_first_to_last_brace s = None"
proof (rule ccontr)
  let ?f = "dropWhile (\<lambda>x. x \<noteq> 123) s"
  assume "spec_first_to_last_brace s \<noteq> None"
  then have in_f: "125 \<in> set ?f"
    by (simp add: spec_first_to_last_brace_def Let_def split: if_splits)
  then have "?f \<noteq> []" by (metis empty_iff empty_set)
  then have "hd ?f = 123"
    using hd_dropWhile [of "\<lambda>x. x \<noteq> 123" s] by simp
  with \<open>?f \<noteq> []\<close> obtain rest where f: "?f = 123 # rest"
    by (cases ?f) auto
  with in_f have "125 \<in> set rest" by simp
  then obtain b c where "rest = b @ 125 # c"
    by (auto dest: split_list)
  with f have "s = takeWhile (\<lambda>x. x \<noteq> 123) s @ 123 # b @ 125 # c"
    by (metis takeWhile_dropWhile_id)
  with assms show False by blast
qed

subsection \<open>The helper and the words of the specification\<close>

lemma findall_head:
  "(case findall p s of [] \<Rightarrow> none | m # ms \<Rightarrow> some m) =
     (case search p s of None \<Rightarrow> none | Some (marks, rest) \<Rightarrow> some (group1 marks))"
  by (subst findall.simps) (simp split: option.splits)

lemma extract_json_from_text_search:
  "extract_json_from_text s =
     (case search JSON_FENCE_PATTERN s of
        Some (marks, rest) \<Rightarrow> Some (py_strip (group1 marks))
      | None \<Rightarrow>
          (case search JSON_OBJECT_PATTERN s of
             Some (marks, rest) \<Rightarrow> Some (py_strip (group1 marks))
           | None \<Rightarrow> None))"
proof -
  have "extract_json_from_text s =
     (case findall JSON_FENCE_PATTERN s of
        [] \<Rightarrow> (case findall JSON_OBJECT_PATTERN s of [] \<Rightarrow> None | m # ms \<Rightarrow> Some (py_strip m))
      | m # ms \<Rightarrow> Some (py_strip m))"
    by (simp add: extract_json_from_text_def split: list.splits)
  then show ?thesis
    unfolding findall_head by (simp split: option.splits)
qed

lemma extract_json_from_text_fenced:
  assumes "spec_fenced_block s = Some body"
  shows "extract_json_from_text s = Some (py_strip body)"
  using search_fence_Some [OF assms]
  by (auto simp: extract_json_from_text_search)

lemma py_strip_braces: "py_strip (123 # b @ [125]) = 123 # b @ [125]"
  unfolding py_strip_def by (rule strip_with_id) simp_all

lemma extract_json_from_text_braces:
  assumes "spec_fenced_block s = None"
  shows "extract_json_from_text s = spec_first_to_last_brace s"
proof (cases "\<exists>a b c. s = a @ 123 # b @ 125 # c")
  case True
  then obtain a b c where s: "s = a @ 123 # b @ 125 # c" "123 \<notin> set a" "125 \<notin> set c"
    using brace_split by blast
  have "group1 [123 # b @ 125 # c, c] = 123 # b @ [125]"
    by simp
  with s search_fence_None [OF assms] show ?thesis
    by (simp add: extract_json_from_text_search search_object_Some
        spec_first_to_last_brace_Some py_strip_braces del: group1.simps)
next
  case False
  with search_fence_None [OF assms] show ?thesis
    by (simp add: extract_json_from_text_search search_object_None
        spec_first_to_last_brace_None)
qed

lemma spec_fenced_block_decomp:
  assumes "spec_fenced_block s = Some body"
  shows "\<exists>pre post. s = pre @ FENCE_OPEN @ body @ FENCE_CLOSE @ post
           \<and> (\<forall>j<length pre. \<not> startswith (drop j s) FENCE_OPEN)
           \<and> (\<forall>j<length body. \<not> startswith (drop j (body @ FENCE_CLOSE @ post)) FENCE_CLOSE)"
proof -
  from assms obtain i k where i: "str_find FENCE_OPEN s = Some i"
    and k: "str_find FENCE_CLOSE (drop (i + 7) s) = Some k"
    and body: "body = take k (drop (i + 7) s)"
    by (auto simp: spec_fenced_block_def length_FENCE_OPEN Let_def split: option.splits)
  from str_find_decomp [OF i] obtain post1 where p1: "s = take i s @ FENCE_OPEN @ post1"
    by blast
  from str_find_Some [OF i] have il: "i \<le> length s"
    and first: "\<forall>j<i. \<not> startswith (drop j s) FENCE_OPEN"
    by simp_all
  have "drop (i + 7) s = drop (i + 7) (take i s @ FENCE_OPEN @ post1)"
    using p1 by simp
  also have "\<dots> = post1"
    using il by (simp add: length_FENCE_OPEN min_def)
  finally have after: "drop (i + 7) s = post1" .
  from str_find_decomp [OF k] obtain post where
    p2: "post1 = body @ FENCE_CLOSE @ post"
    unfolding after body by blast
  from str_find_Some [OF k] have kl: "k \<le> length post1"
    and "\<forall>j<k. \<not> startswith (drop j post1) FENCE_CLOSE"
    unfolding after by simp_all
  moreover have "length body = k"
    using kl by (simp add: body after)
  ultimately have "\<forall>j<length body. \<not> startswith (drop j (body @ FENCE_CLOSE @ post)) FENCE_CLOSE"
    using p2 by simp
  moreover have "length (take i s) = i"
    using il by simp
  ultimately show ?thesis
    using p1 p2 first by metis
qed

lemma spec_fenced_block_None_iff:
  "spec_fenced_block s = None
     \<longleftrightarrow> (\<nexists>pre body post. s = pre @ FENCE_OPEN @ body @ FENCE_CLOSE @ post)"
proof
  assume n: "spec_fenced_block s = None"
  show "\<nexists>pre body post. s = pre @ FENCE_OPEN @ body @ FENCE_CLOSE @ post"
  proof
    assume "\<exists>pre body post. s = pre @ FENCE_OPEN @ body @ FENCE_CLOSE @ post"
    then obtain pre body post where s: "s = pre @ FENCE_OPEN @ body @ FENCE_CLOSE @ post"
      by blast
    then obtain i where i: "str_find FENCE_OPEN s = Some i"
      using str_find_occurs [of FENCE_OPEN pre "body @ FENCE_CLOSE @ post"] by auto
    have "startswith (drop (length pre) s) FENCE_OPEN"
      by (simp add: s startswith_append)
    with str_find_Some [OF i] have le: "i \<le> length pre"
      by (meson not_le)
    from n i have "str_find FENCE_CLOSE (drop (i + 7) s) = None"
      by (simp add: spec_fenced_block_def length_FENCE_OPEN Let_def split: option.splits)
    then have "str_find FENCE_CLOSE (drop (length pre - i) (drop (i + 7) s)) = None"
      by (rule str_find_drop_None)
    moreover have "drop (length pre - i) (drop (i + 7) s) = body @ FENCE_CLOSE @ post"
      using le by (simp add: s length_FENCE_OPEN add.commute)
    ultimately show False
      using str_find_occurs [of FENCE_CLOSE body post] by simp
  qed
next
  assume "\<nexists>pre body post. s = pre @ FENCE_OPEN @ body @ FENCE_CLOSE @ post"
  then show "spec_fenced_block s = None"
    using spec_fenced_block_decomp [of s] by (cases "spec_fenced_block s") auto
qed

lemma spec_first_to_last_brace_None_iff:
  "spec_first_to_last_brace s = None \<longleftrightarrow> (\<nexists>a b c. s = a @ [123] @ b @ [125] @ c)"
proof (cases "\<exists>a b c. s = a @ 123 # b @ 125 # c")
  case True
  then obtain a b c where "s = a @ 123 # b @ 125 # c" "123 \<notin> set a" "125 \<notin> set c"
    using brace_split by blast
  then have "spec_first_to_last_brace s \<noteq> None"
    by (simp add: spec_first_to_last_brace_Some)
  with True show ?thesis by simp
next
  case False
  then show ?thesis by (simp add: spec_first_to_last_brace_None)
qed

lemma spec_extract_json_part:
  assumes "spec_extract_json s = Some r"
  shows "\<exists>before after. s = before @ r @ after"
proof (cases "spec_fenced_block s")
  case (Some body)
  with assms have r: "r = py_strip body"
    by (simp add: spec_extract_json_def)
  from spec_fenced_block_decomp [OF Some] obtain pre post where
    s: "s = pre @ FENCE_OPEN @ body @ FENCE_CLOSE @ post"
    by blast
  from strip_with_sublist [of body isspace] obtain b1 b2 where "body = b1 @ r @ b2"
    unfolding r py_strip_def by blast
  with s have "s = (pre @ FENCE_OPEN @ b1) @ r @ (b2 @ FENCE_CLOSE @ post)"
    by simp
  then show ?thesis by blast
next
  case None
  with assms have r: "spec_first_to_last_brace s = Some r"
    by (simp add: spec_extract_json_def)
  then have "\<exists>a b c. s = a @ 123 # b @ 125 # c"
    using spec_first_to_last_brace_None [of s] by auto
  then obtain a b c where s: "s = a @ 123 # b @ 125 # c" "123 \<notin> set a" "125 \<notin> set c"
    using brace_split by blast
  with r have "r = 123 # b @ [125]"
    by (simp add: spec_first_to_last_brace_Some)
  with s have "s = a @ r @ c" by simp
  then show ?thesis by blast
qed
subsection \<open>The scan of \<open>extract_product_info\<close>\<close>

text \<open>
  \<open>extract_product_info\<close> does not call the helper: it slices the text from
  \<open>find('{')\<close> to \<open>rfind('}') + 1\<close> itself, and has no step for a fenced block. When a
  closing brace follows the first opening brace, the slice is the substring the helper
  takes for a text without a fenced block.
\<close>

lemma py_find_first: "c \<notin> set a \<Longrightarrow> py_find c (a @ c # r) = int (length a)"
  by (induction a) (simp_all add: Let_def)

lemma py_rfind_absent: "c \<notin> set r \<Longrightarrow> py_rfind c r = - 1"
  by (induction r) (simp_all add: Let_def)

lemma py_rfind_last: "c \<notin> set r \<Longrightarrow> py_rfind c (a @ c # r) = int (length a)"
  by (induction a) (simp_all add: Let_def py_rfind_absent)

lemma product_data_of_braces:
  assumes "spec_first_to_last_brace s = Some r"
  shows "product_data_of lib (Content_str s)
           = then_do (json_loads lib r) (\<lambda>data. Inr (Some data))"
proof -
  from assms have "\<exists>a b c. s = a @ 123 # b @ 125 # c"
    using spec_first_to_last_brace_None [of s] by auto
  then obtain a b c where s: "s = a @ 123 # b @ 125 # c" "123 \<notin> set a" "125 \<notin> set c"
    using brace_split by blast
  with assms have r: "r = 123 # b @ [125]"
    by (simp add: spec_first_to_last_brace_Some)
  have f: "py_find 123 s = int (length a)"
    unfolding s(1) using s(2) by (rule py_find_first)
  have "py_rfind 125 ((a @ 123 # b) @ 125 # c) = int (length (a @ 123 # b))"
    using s(3) by (rule py_rfind_last)
  then have l: "py_rfind 125 s = int (length a) + int (length b) + 1"
    by (simp add: s(1))
  have "py_slice (length a) (length a + length b + 2) s = r"
    by (simp add: py_slice_def s(1) r)
  moreover have "nat (int (length a) + int (length b) + 1 + 1) = length a + length b + 2"
    by simp
  ultimately show ?thesis
    by (simp add: product_data_of_def f l Let_def)
qed

text \<open>When the only closing brace stands before the opening brace, the helper returns
  \<open>None\<close>; the scan hands the empty slice to \<open>json.loads\<close>.\<close>

lemma product_data_of_unbraced:
  "product_data_of lib (Content_str example_unbraced_text)
     = then_do (json_loads lib []) (\<lambda>data. Inr (Some data))"
  by (simp add: product_data_of_def example_unbraced_text_def ascii_def py_slice_def Let_def)
lemma example_fenced_text_spec: "spec_extract_json example_fenced_text = Some (ascii ''{a}'')"
  by (simp add: spec_extract_json_def spec_fenced_block_def example_fenced_text_def
      FENCE_OPEN_def FENCE_CLOSE_def ascii_def startswith_def Let_def
      py_strip_def strip_with_def lstrip_with_def rstrip_with_def isspace_def)

lemma example_braced_text_spec:
  "spec_extract_json example_braced_text = Some (ascii ''{a} or {b}'')"
  by (simp add: spec_extract_json_def spec_fenced_block_def spec_first_to_last_brace_def
      example_braced_text_def FENCE_OPEN_def FENCE_CLOSE_def ascii_def startswith_def Let_def)

lemma example_unbraced_text_spec: "spec_extract_json example_unbraced_text = None"
  by (simp add: spec_extract_json_def spec_fenced_block_def spec_first_to_last_brace_def
      example_unbraced_text_def FENCE_OPEN_def FENCE_CLOSE_def ascii_def startswith_def Let_def)

text \<open>
  C1. For every text, \<open>_extract_json_from_text\<close> returns what the words of the
  specification describe: when the text has a fenced block (an opening fence of three
  backquotes and \<open>json\<close>, and a closing fence of three backquotes after it), the
  stripped contents of the first one, from the first opening fence to the first
  closing fence after it; otherwise the substring from the first opening brace to the
  last closing brace, both included, when a closing brace follows the first opening
  brace; otherwise \<open>None\<close>. It returns \<open>None\<close> exactly when the text has neither an
  opening fence followed by a closing fence nor an opening brace followed by a closing
  brace. What it returns is a contiguous part of the text, unchanged: nothing is
  validated and nothing is repaired.
\<close>

theorem extract_json_from_text_spec:
  "extract_json_from_text text = spec_extract_json text
   \<and> (extract_json_from_text text = None \<longleftrightarrow>
        (\<nexists>pre body post. text = pre @ FENCE_OPEN @ body @ FENCE_CLOSE @ post)
        \<and> (\<nexists>a b c. text = a @ [123] @ b @ [125] @ c))
   \<and> (\<forall>r. extract_json_from_text text = Some r \<longrightarrow> (\<exists>before after. text = before @ r @ after))"
proof -
  have eq: "extract_json_from_text text = spec_extract_json text"
  proof (cases "spec_fenced_block text")
    case None
    then show ?thesis
      by (simp add: extract_json_from_text_braces spec_extract_json_def)
  next
    case (Some body)
    then show ?thesis
      by (simp add: extract_json_from_text_fenced spec_extract_json_def)
  qed
  have "spec_extract_json text = None \<longleftrightarrow>
          spec_fenced_block text = None \<and> spec_first_to_last_brace text = None"
    by (simp add: spec_extract_json_def split: option.splits)
  then have none: "extract_json_from_text text = None \<longleftrightarrow>
        (\<nexists>pre body post. text = pre @ FENCE_OPEN @ body @ FENCE_CLOSE @ post)
        \<and> (\<nexists>a b c. text = a @ [123] @ b @ [125] @ c)"
    unfolding eq spec_fenced_block_None_iff spec_first_to_last_brace_None_iff .
  have "\<forall>r. extract_json_from_text text = Some r \<longrightarrow> (\<exists>before after. text = before @ r @ after)"
    unfolding eq using spec_extract_json_part by blast
  with eq none show ?thesis by blast
qed

theorem extract_json_from_text_spec_witness:
  "extract_json_from_text example_fenced_text = Some (ascii ''{a}'')
   \<and> extract_json_from_text example_braced_text = Some (ascii ''{a} or {b}'')
   \<and> extract_json_from_text example_unbraced_text = None
   \<and> (\<exists>before after. example_fenced_text = before @ ascii ''{a}'' @ after)"
proof -
  from extract_json_from_text_spec [of example_fenced_text]
  have a: "extract_json_from_text example_fenced_text = Some (ascii ''{a}'')"
    and a': "\<exists>before after. example_fenced_text = before @ ascii ''{a}'' @ after"
    by (simp_all only: example_fenced_text_spec)
  from extract_json_from_text_spec [of example_braced_text]
  have b: "extract_json_from_text example_braced_text = Some (ascii ''{a} or {b}'')"
    by (simp only: example_braced_text_spec)
  from extract_json_from_text_spec [of example_unbraced_text]
  have c: "extract_json_from_text example_unbraced_text = None"
    by (simp only: example_unbraced_text_spec)
  from a b c a' show ?thesis by blast
qed

end
